theory Spec2Isabelle
  imports Main "HOL-Library.AList"
begin

section \<open>Strings as Python reads them\<close>

text \<open>
  The validators of \<^verbatim>\<open>src/tools/validators.py\<close> work on Python \<^verbatim>\<open>str\<close> values.
  They are modelled as \<^typ>\<open>string\<close>, one \<^typ>\<open>char\<close> per code point, which covers the
  code points below 256. In that range the characters for which \<^verbatim>\<open>str.isspace\<close> holds
  are 9..13, 28..32, 133 and 160, and the characters matched by \<^verbatim>\<open>\d\<close> are the ten
  ASCII digits.
\<close>

definition isspace :: "char \<Rightarrow> bool" where
  "isspace c = (c \<in> set [CHR 0x09, CHR 0x0A, CHR 0x0B, CHR 0x0C, CHR 0x0D,
                          CHR 0x1C, CHR 0x1D, CHR 0x1E, CHR 0x1F, CHR 0x20,
                          CHR 0x85, CHR 0xA0])"

definition isdigit :: "char \<Rightarrow> bool" where
  "isdigit c = (c \<in> set ''0123456789'')"

text \<open>\<^verbatim>\<open>s.strip()\<close> and \<^verbatim>\<open>s.strip(chars)\<close>.\<close>

definition strip :: "string \<Rightarrow> string" where
  "strip s = rev (dropWhile isspace (rev (dropWhile isspace s)))"

definition strip_chars :: "string \<Rightarrow> string \<Rightarrow> string" where
  "strip_chars cs s =
     rev (dropWhile (\<lambda>c. c \<in> set cs) (rev (dropWhile (\<lambda>c. c \<in> set cs) s)))"

definition startswith :: "string \<Rightarrow> string \<Rightarrow> bool" where
  "startswith s p = (take (length p) s = p)"

definition endswith :: "string \<Rightarrow> string \<Rightarrow> bool" where
  "endswith s p = (length p \<le> length s \<and> drop (length s - length p) s = p)"

text \<open>\<^verbatim>\<open>s.split(sep)\<close> for a one-character separator: never the empty list.\<close>

fun split_on :: "char \<Rightarrow> string \<Rightarrow> string list" where
  "split_on sep [] = [[]]"
| "split_on sep (c # cs) =
     (if c = sep then [] # split_on sep cs
      else (case split_on sep cs of
              [] \<Rightarrow> [[c]]
            | p # ps \<Rightarrow> (c # p) # ps))"

text \<open>\<^verbatim>\<open>s.split(sep, 1)[1]\<close>, used only where \<^verbatim>\<open>sep in s\<close>: what follows the first separator.\<close>

definition after_first :: "char \<Rightarrow> string \<Rightarrow> string" where
  "after_first sep s = tl (dropWhile (\<lambda>c. c \<noteq> sep) s)"

text \<open>
  \<^verbatim>\<open>int(s)\<close> on a string of decimal digits (surrounding whitespace is ignored by Python),
  and the format specification \<^verbatim>\<open>{n:04d}\<close> for a non-negative number.
\<close>

definition digit_value :: "char \<Rightarrow> nat" where
  "digit_value c = length (takeWhile (\<lambda>d. d \<noteq> c) ''0123456789'')"

definition py_int :: "string \<Rightarrow> nat" where
  "py_int s = foldl (\<lambda>acc c. 10 * acc + digit_value c) 0 (strip s)"

definition digit_char :: "nat \<Rightarrow> char" where
  "digit_char d = ''0123456789'' ! d"

fun decimal :: "nat \<Rightarrow> string" where
  "decimal n = (if n < 10 then [digit_char n] else decimal (n div 10) @ [digit_char (n mod 10)])"

declare decimal.simps [simp del]

definition format_04d :: "nat \<Rightarrow> string" where
  "format_04d n = replicate (4 - length (decimal n)) CHR ''0'' @ decimal n"

subsection \<open>The three regular expressions\<close>

text \<open>
  \<^verbatim>\<open>re.match(r"^asset-\d{4}$", s)\<close>: without the MULTILINE flag \<^verbatim>\<open>$\<close> matches at the end
  of the string and also just before a newline that ends the string.
\<close>

definition end_of_string :: "string \<Rightarrow> bool" where
  "end_of_string s = (s = [] \<or> s = [CHR 0x0A])"

definition match_asset_id :: "string \<Rightarrow> bool" where
  "match_asset_id s =
     (take 6 s = ''asset-'' \<and> length (take 4 (drop 6 s)) = 4 \<and>
      list_all isdigit (take 4 (drop 6 s)) \<and> end_of_string (drop 10 s))"

text \<open>\<^verbatim>\<open>re.match(r"^episode-\d{2}\.md$", name)\<close>.\<close>

definition match_episode_name :: "string \<Rightarrow> bool" where
  "match_episode_name s =
     (take 8 s = ''episode-'' \<and> length (take 2 (drop 8 s)) = 2 \<and>
      list_all isdigit (take 2 (drop 8 s)) \<and> take 3 (drop 10 s) = ''.md'' \<and>
      end_of_string (drop 13 s))"

text \<open>
  \<^verbatim>\<open>re.compile(r"asset-\d{4}").finditer(line)\<close>: the non-overlapping matches from left to
  right. The pattern has the fixed length 10, so a match at a position consumes ten
  characters and a failure moves on by one.
\<close>

definition asset_token_here :: "string \<Rightarrow> bool" where
  "asset_token_here s =
     (take 6 s = ''asset-'' \<and> length (take 4 (drop 6 s)) = 4 \<and>
      list_all isdigit (take 4 (drop 6 s)))"

function finditer_asset :: "string \<Rightarrow> string list" where
  "finditer_asset [] = []"
| "finditer_asset (c # cs) =
     (if asset_token_here (c # cs)
      then take 10 (c # cs) # finditer_asset (drop 9 cs)
      else finditer_asset cs)"
  by pat_completeness auto
termination
  by (relation "measure length") auto

section \<open>Violations\<close>

text \<open>
  \<^verbatim>\<open>Validator.add_violation\<close> appends a dictionary with the keys artifact, line,
  requirement and details. The details are f-strings; the model keeps which message it is
  together with the values put into it, and \<open>message_text\<close> is the string the f-string
  evaluates to.
\<close>

datatype message =
    MissingLedger
  | InvalidAssetFormat string
  | BreaksSequentialOrder string nat
  | InvalidEpisodeName string
  | MissingProse
  | UnregisteredReference string
  | NoSourceEpisode string
  | MissingEpisode string string
  | MissingOutline
  | SectionNotFound string
  | SectionOutOfOrder string

fun message_text :: "message \<Rightarrow> string" where
  "message_text MissingLedger = ''Missing assets/LEDGER.md; cannot validate asset references.''"
| "message_text (InvalidAssetFormat asset_id) =
     ''Asset ID '' @ [CHR 0x27] @ asset_id @ [CHR 0x27] @
     '' has invalid format (expected: asset-NNNN with 4 digits).''"
| "message_text (BreaksSequentialOrder asset_id expected) =
     ''Asset ID '' @ asset_id @ '' breaks sequential order (expected: asset-'' @
     format_04d expected @ '').''"
| "message_text (InvalidEpisodeName name) =
     ''Episode filename '' @ [CHR 0x27] @ name @ [CHR 0x27] @
     '' has invalid format (expected: episode-NN.md with 2 digits).''"
| "message_text MissingProse = ''Missing prose/draft.md; FSM validation requires prose to exist.''"
| "message_text (UnregisteredReference asset_id) =
     ''Prose references '' @ asset_id @ '' which is not registered in assets/LEDGER.md.''"
| "message_text (NoSourceEpisode asset_id) =
     ''Asset '' @ asset_id @ '' lists no Source Episode in LEDGER.md.''"
| "message_text (MissingEpisode asset_id episode_id) =
     ''Asset '' @ asset_id @ '' references episode '' @ episode_id @
     '' but no such episode file exists.''"
| "message_text MissingOutline = ''Missing structure/outline.md; cannot verify section order.''"
| "message_text (SectionNotFound name) =
     ''Structure section '' @ [CHR 0x27] @ name @ [CHR 0x27] @
     '' cannot be found in prose/draft.md.''"
| "message_text (SectionOutOfOrder name) =
     ''Section '' @ [CHR 0x27] @ name @ [CHR 0x27] @
     '' appears out of order relative to structure/outline.md.''"

record violation =
  artifact :: string
  line :: "nat option"
  requirement :: string
  details :: message

definition add_violation ::
  "violation list \<Rightarrow> string \<Rightarrow> string \<Rightarrow> message \<Rightarrow> nat option \<Rightarrow> violation list" where
  "add_violation violations a r d l =
     violations @ [\<lparr>artifact = a, line = l, requirement = r, details = d\<rparr>]"

text \<open>
  \<^verbatim>\<open>validators.py\<close> imports \<^verbatim>\<open>REQUIREMENTS\<close> and \<^verbatim>\<open>TRIAD_FILES\<close> from a module
  \<^verbatim>\<open>config\<close>; they are parameters of the model. \<open>old_config\<close> holds the values of
  \<^verbatim>\<open>src/tools/old_config.py\<close>.
\<close>

record config =
  USER_GUIDE_ASSET :: string
  USER_GUIDE_STRUCTURE :: string
  TRIAD_FILES :: "string list"

definition old_config :: config where
  "old_config =
     \<lparr>USER_GUIDE_ASSET = ''user-guide/CANON.md:60-63 (FSM Validation Details)'',
      USER_GUIDE_STRUCTURE = ''user-guide/CANON.md:64-66 (FSM Validation Details)'',
      TRIAD_FILES = [''CANON.md'', ''VOCABULARY.md'', ''README.md'']\<rparr>"

text \<open>
  \<^verbatim>\<open>format_artifact_path\<close> gives the path relative to the root; the four paths of
  \<^verbatim>\<open>FSMValidator.validate\<close> are fixed, and an episode entry lies under the episode
  directory.
\<close>

definition ledger_artifact :: string where
  "ledger_artifact = ''user-guide/assets/LEDGER.md''"

definition prose_artifact :: string where
  "prose_artifact = ''user-guide/prose/draft.md''"

definition structure_artifact :: string where
  "structure_artifact = ''user-guide/structure/outline.md''"

definition episode_artifact :: "string \<Rightarrow> string" where
  "episode_artifact name = ''user-guide/episodes/'' @ name"

section \<open>The asset ledger\<close>

text \<open>
  A file is the list of lines that iterating over it yields, each with its line terminator;
  a path that does not exist is \<open>None\<close>. The dictionary \<^verbatim>\<open>asset_sources\<close> keeps
  insertion order and assigning to a key that is present replaces its value in place,
  which is \<^const>\<open>AList.update\<close> on an association list.
\<close>

record asset_meta =
  meta_line :: nat
  meta_sources :: "string list"

record ledger_state =
  expected_next_id :: nat
  asset_ids :: "string set"
  asset_sources :: "(string \<times> asset_meta) list"
  violations :: "violation list"

text \<open>The body of the loop of \<^verbatim>\<open>_parse_asset_ledger\<close> for one numbered line.\<close>

definition ledger_line :: "config \<Rightarrow> ledger_state \<Rightarrow> nat \<times> string \<Rightarrow> ledger_state" where
  "ledger_line cfg st nl =
     (let line_number = fst nl;
          stripped = strip (snd nl)
      in if \<not> startswith stripped ''| asset-'' then st
         else
           let columns = map strip (split_on CHR ''|'' (strip_chars ''|'' stripped))
           in if columns = [] then st
              else
                let asset_id = hd columns;
                    st1 =
                      (if \<not> match_asset_id asset_id
                       then st\<lparr>violations :=
                               add_violation (violations st) ledger_artifact
                                 (USER_GUIDE_ASSET cfg) (InvalidAssetFormat asset_id)
                                 (Some line_number)\<rparr>
                       else
                         let id_num = py_int (split_on CHR ''-'' asset_id ! 1);
                             st0 =
                               (if id_num \<noteq> expected_next_id st
                                then st\<lparr>violations :=
                                        add_violation (violations st) ledger_artifact
                                          (USER_GUIDE_ASSET cfg)
                                          (BreaksSequentialOrder asset_id (expected_next_id st))
                                          (Some line_number)\<rparr>
                                else st)
                         in st0\<lparr>expected_next_id := id_num + 1\<rparr>);
                    source_value = (if length columns > 3 then columns ! 3 else []);
                    sources = filter (\<lambda>s. s \<noteq> []) (map strip (split_on CHR '','' source_value))
                in st1\<lparr>asset_ids := insert asset_id (asset_ids st1),
                       asset_sources :=
                         AList.update asset_id
                           \<lparr>meta_line = line_number, meta_sources = sources\<rparr>
                           (asset_sources st1)\<rparr>)"

fun ledger_lines :: "config \<Rightarrow> ledger_state \<Rightarrow> (nat \<times> string) list \<Rightarrow> ledger_state" where
  "ledger_lines cfg st [] = st"
| "ledger_lines cfg st (nl # rest) = ledger_lines cfg (ledger_line cfg st nl) rest"

text \<open>
  \<^verbatim>\<open>_parse_asset_ledger\<close>: the violations after the call, the set of IDs and the
  dictionary of sources.
\<close>

definition parse_asset_ledger ::
  "config \<Rightarrow> string list option \<Rightarrow> violation list \<Rightarrow>
     violation list \<times> string set \<times> (string \<times> asset_meta) list" where
  "parse_asset_ledger cfg ledger vs =
     (case ledger of
        None \<Rightarrow>
          (add_violation vs ledger_artifact (USER_GUIDE_ASSET cfg) MissingLedger None, {}, [])
      | Some lines \<Rightarrow>
          (let st = ledger_lines cfg
                      \<lparr>expected_next_id = 1, asset_ids = {}, asset_sources = [],
                       violations = vs\<rparr>
                      (enumerate 1 lines)
           in (violations st, asset_ids st, asset_sources st)))"

section \<open>The episode directory\<close>

text \<open>
  A directory is the list of its entries in the order \<^verbatim>\<open>iterdir\<close> yields them; each
  entry has a name and is a regular file or not.
\<close>

record dir_entry =
  entry_name :: string
  entry_is_file :: bool

text \<open>\<^verbatim>\<open>name[len("episode-"):-len(".md")]\<close>.\<close>

definition id_part_of :: "string \<Rightarrow> string" where
  "id_part_of name = drop 8 (take (length name - 3) name)"

definition episode_entry ::
  "config \<Rightarrow> violation list \<times> string set \<Rightarrow> dir_entry \<Rightarrow> violation list \<times> string set" where
  "episode_entry cfg st entry =
     (if \<not> entry_is_file entry \<or> entry_name entry \<in> set (TRIAD_FILES cfg) then st
      else
        let name = entry_name entry;
            vs1 = (if \<not> match_episode_name name
                   then add_violation (fst st) (episode_artifact name) (USER_GUIDE_ASSET cfg)
                          (InvalidEpisodeName name) None
                   else fst st);
            ids1 = (if startswith name ''episode-'' \<and> endswith name ''.md''
                    then (let id_part = id_part_of name
                          in if id_part \<noteq> [] then insert id_part (snd st) else snd st)
                    else snd st)
        in (vs1, ids1))"

fun episode_entries ::
  "config \<Rightarrow> violation list \<times> string set \<Rightarrow> dir_entry list \<Rightarrow> violation list \<times> string set" where
  "episode_entries cfg st [] = st"
| "episode_entries cfg st (entry # rest) = episode_entries cfg (episode_entry cfg st entry) rest"

definition list_episode_ids ::
  "config \<Rightarrow> dir_entry list option \<Rightarrow> violation list \<Rightarrow> violation list \<times> string set" where
  "list_episode_ids cfg episodes_dir vs =
     (case episodes_dir of
        None \<Rightarrow> (vs, {})
      | Some entries \<Rightarrow> episode_entries cfg (vs, {}) entries)"

section \<open>References from the prose\<close>

text \<open>The inner loop of \<^verbatim>\<open>_validate_prose_references\<close>, over the matches of one line.\<close>

fun prose_matches ::
  "config \<Rightarrow> string set \<Rightarrow> nat \<Rightarrow> string set \<times> violation list \<Rightarrow> string list \<Rightarrow>
     string set \<times> violation list" where
  "prose_matches cfg ids line_number st [] = st"
| "prose_matches cfg ids line_number st (asset_id # rest) =
     (if asset_id \<notin> ids \<and> asset_id \<notin> fst st
      then prose_matches cfg ids line_number
             (insert asset_id (fst st),
              add_violation (snd st) prose_artifact (USER_GUIDE_ASSET cfg)
                (UnregisteredReference asset_id) (Some line_number))
             rest
      else prose_matches cfg ids line_number st rest)"

fun prose_lines ::
  "config \<Rightarrow> string set \<Rightarrow> string set \<times> violation list \<Rightarrow> (nat \<times> string) list \<Rightarrow>
     string set \<times> violation list" where
  "prose_lines cfg ids st [] = st"
| "prose_lines cfg ids st (nl # rest) =
     prose_lines cfg ids (prose_matches cfg ids (fst nl) st (finditer_asset (snd nl))) rest"

definition validate_prose_references ::
  "config \<Rightarrow> string list option \<Rightarrow> string set \<Rightarrow> violation list \<Rightarrow> violation list" where
  "validate_prose_references cfg prose ids vs =
     (case prose of
        None \<Rightarrow> add_violation vs prose_artifact (USER_GUIDE_ASSET cfg) MissingProse None
      | Some lines \<Rightarrow> snd (prose_lines cfg ids ({}, vs) (enumerate 1 lines)))"

section \<open>Source episodes of the assets\<close>

fun source_episodes ::
  "config \<Rightarrow> string set \<Rightarrow> string \<Rightarrow> nat \<Rightarrow> violation list \<Rightarrow> string list \<Rightarrow> violation list" where
  "source_episodes cfg episode_ids asset_id ln vs [] = vs"
| "source_episodes cfg episode_ids asset_id ln vs (episode_id # rest) =
     source_episodes cfg episode_ids asset_id ln
       (if episode_id \<notin> episode_ids
        then add_violation vs ledger_artifact (USER_GUIDE_ASSET cfg)
               (MissingEpisode asset_id episode_id) (Some ln)
        else vs)
       rest"

fun validate_asset_sources ::
  "config \<Rightarrow> (string \<times> asset_meta) list \<Rightarrow> string set \<Rightarrow> violation list \<Rightarrow> violation list" where
  "validate_asset_sources cfg [] episode_ids vs = vs"
| "validate_asset_sources cfg ((asset_id, meta) # rest) episode_ids vs =
     (if meta_sources meta = []
      then validate_asset_sources cfg rest episode_ids
             (add_violation vs ledger_artifact (USER_GUIDE_ASSET cfg)
                (NoSourceEpisode asset_id) (Some (meta_line meta)))
      else validate_asset_sources cfg rest episode_ids
             (source_episodes cfg episode_ids asset_id (meta_line meta) vs (meta_sources meta)))"

section \<open>Sections of the outline and of the prose\<close>

record section_entry =
  sec_name :: string
  sec_line :: nat

definition structure_line :: "section_entry list \<Rightarrow> nat \<times> string \<Rightarrow> section_entry list" where
  "structure_line sections nl =
     (let stripped = strip (snd nl)
      in if \<not> startswith stripped ''## Section'' then sections
         else
           let title = (if CHR '':'' \<in> set stripped then strip (after_first CHR '':'' stripped)
                        else strip (drop 10 stripped))
           in sections @ [\<lparr>sec_name = title, sec_line = fst nl\<rparr>])"

definition parse_structure_sections :: "string list option \<Rightarrow> section_entry list" where
  "parse_structure_sections structure =
     (case structure of
        None \<Rightarrow> []
      | Some lines \<Rightarrow> foldl structure_line [] (enumerate 1 lines))"

definition prose_heading :: "section_entry list \<Rightarrow> nat \<times> string \<Rightarrow> section_entry list" where
  "prose_heading sections nl =
     (let stripped = strip (snd nl)
      in if startswith stripped ''## ''
         then sections @ [\<lparr>sec_name = strip (drop 3 stripped), sec_line = fst nl\<rparr>]
         else sections)"

definition parse_prose_sections :: "string list option \<Rightarrow> section_entry list" where
  "parse_prose_sections prose =
     (case prose of
        None \<Rightarrow> []
      | Some lines \<Rightarrow> foldl prose_heading [] (enumerate 1 lines))"

text \<open>
  The inner loop of \<^verbatim>\<open>_validate_structure_order\<close>: the index and the line of the first
  prose section with the name, the loop ending at the first hit.
\<close>

fun find_section :: "string \<Rightarrow> (nat \<times> section_entry) list \<Rightarrow> (nat \<times> nat) option" where
  "find_section name [] = None"
| "find_section name (ie # rest) =
     (if sec_name (snd ie) = name then Some (fst ie, sec_line (snd ie))
      else find_section name rest)"

text \<open>The outer loop, on \<^verbatim>\<open>last_index\<close> and the violations.\<close>

fun structure_loop ::
  "config \<Rightarrow> section_entry list \<Rightarrow> int \<times> violation list \<Rightarrow> section_entry list \<Rightarrow>
     int \<times> violation list" where
  "structure_loop cfg prose_sections st [] = st"
| "structure_loop cfg prose_sections st (section # rest) =
     (case find_section (sec_name section) (enumerate 0 prose_sections) of
        None \<Rightarrow>
          structure_loop cfg prose_sections
            (fst st,
             add_violation (snd st) structure_artifact (USER_GUIDE_STRUCTURE cfg)
               (SectionNotFound (sec_name section)) (Some (sec_line section)))
            rest
      | Some found \<Rightarrow>
          structure_loop cfg prose_sections
            (int (fst found),
             (if int (fst found) \<le> fst st
              then add_violation (snd st) prose_artifact (USER_GUIDE_STRUCTURE cfg)
                     (SectionOutOfOrder (sec_name section)) (Some (snd found))
              else snd st))
            rest)"

definition validate_structure_order ::
  "config \<Rightarrow> section_entry list \<Rightarrow> section_entry list \<Rightarrow> bool \<Rightarrow> bool \<Rightarrow> violation list \<Rightarrow>
     violation list" where
  "validate_structure_order cfg structure_sections prose_sections structure_exists prose_exists vs =
     (if \<not> structure_exists
      then add_violation vs structure_artifact (USER_GUIDE_STRUCTURE cfg) MissingOutline None
      else if \<not> prose_exists then vs
      else snd (structure_loop cfg prose_sections (- 1, vs) structure_sections))"

section \<open>The whole validation\<close>

text \<open>
  The part of the tree that \<^verbatim>\<open>FSMValidator.validate\<close> reads: the directory
  \<^verbatim>\<open>user-guide\<close>, if there is one, with the ledger, the episode directory, the prose and
  the outline, each present or not.
\<close>

record user_guide =
  ledger_file :: "string list option"
  episodes_dir :: "dir_entry list option"
  prose_file :: "string list option"
  structure_file :: "string list option"

definition validate :: "config \<Rightarrow> user_guide option \<Rightarrow> violation list" where
  "validate cfg root =
     (case root of
        None \<Rightarrow> []
      | Some ug \<Rightarrow>
          (let parsed = parse_asset_ledger cfg (ledger_file ug) [];
               listed = list_episode_ids cfg (episodes_dir ug) (fst parsed);
               vs3 = validate_prose_references cfg (prose_file ug) (fst (snd parsed)) (fst listed);
               vs4 = validate_asset_sources cfg (snd (snd parsed)) (snd listed) vs3;
               structure_sections = parse_structure_sections (structure_file ug);
               prose_sections = parse_prose_sections (prose_file ug)
           in validate_structure_order cfg structure_sections prose_sections
                (structure_file ug \<noteq> None) (prose_file ug \<noteq> None) vs4))"

section \<open>Vocabulary of the properties\<close>

text \<open>
  The definitions of this section are not part of the program. They name what the
  properties speak about (a data row, its number, a sequence violation, the tokens of the
  prose with their lines) and, for each loop, the list of violations it appends, written
  as a function of the input alone; the lemmas of the next sections connect each of them
  to the loop it describes.
\<close>

subsection \<open>Rows of the ledger\<close>

text \<open>
  What the body of the ledger loop computes from a line before it looks at the state: the
  columns of a data row (\<open>None\<close> for a line the loop skips), the ID in column 0, the
  source episodes of column 3, whether the ID matches the pattern, and the number
  \<^verbatim>\<open>int(asset_id.split("-")[1])\<close> of a row whose ID does.
\<close>

definition row_columns :: "string \<Rightarrow> string list option" where
  "row_columns l =
     (let stripped = strip l
      in if \<not> startswith stripped ''| asset-'' then None
         else
           let columns = map strip (split_on CHR ''|'' (strip_chars ''|'' stripped))
           in if columns = [] then None else Some columns)"

definition row_id :: "string \<Rightarrow> string option" where
  "row_id l = map_option hd (row_columns l)"

definition row_sources :: "string \<Rightarrow> string list" where
  "row_sources l =
     (case row_columns l of
        None \<Rightarrow> []
      | Some columns \<Rightarrow>
          filter (\<lambda>s. s \<noteq> [])
            (map strip (split_on CHR '','' (if length columns > 3 then columns ! 3 else []))))"

definition well_formed_row :: "string \<Rightarrow> bool" where
  "well_formed_row l = (case row_id l of None \<Rightarrow> False | Some a \<Rightarrow> match_asset_id a)"

definition malformed_row :: "string \<Rightarrow> bool" where
  "malformed_row l = (case row_id l of None \<Rightarrow> False | Some a \<Rightarrow> \<not> match_asset_id a)"

definition row_number :: "string \<Rightarrow> nat" where
  "row_number l = (case row_id l of None \<Rightarrow> 0 | Some a \<Rightarrow> py_int (split_on CHR ''-'' a ! 1))"

definition row_meta :: "nat \<Rightarrow> string \<Rightarrow> asset_meta" where
  "row_meta n l = \<lparr>meta_line = n, meta_sources = row_sources l\<rparr>"

text \<open>The two violations of the ledger loop, and how to tell them apart.\<close>

definition format_violation :: "config \<Rightarrow> nat \<Rightarrow> string \<Rightarrow> violation" where
  "format_violation cfg n a =
     \<lparr>artifact = ledger_artifact, line = Some n, requirement = USER_GUIDE_ASSET cfg,
      details = InvalidAssetFormat a\<rparr>"

definition sequence_violation :: "config \<Rightarrow> nat \<Rightarrow> string \<Rightarrow> nat \<Rightarrow> violation" where
  "sequence_violation cfg n a e =
     \<lparr>artifact = ledger_artifact, line = Some n, requirement = USER_GUIDE_ASSET cfg,
      details = BreaksSequentialOrder a e\<rparr>"

definition is_sequence_violation :: "violation \<Rightarrow> bool" where
  "is_sequence_violation v = (case details v of BreaksSequentialOrder a e \<Rightarrow> True | _ \<Rightarrow> False)"

definition is_format_violation :: "violation \<Rightarrow> bool" where
  "is_format_violation v = (case details v of InvalidAssetFormat a \<Rightarrow> True | _ \<Rightarrow> False)"

text \<open>
  The violations the ledger loop appends when it starts with the expected-next counter
  \<open>e\<close> (lemma \<open>ledger_lines_violations\<close>), the numbers of the well-formed rows in file
  order, and the IDs of all data rows.
\<close>

fun ledger_emitted :: "config \<Rightarrow> nat \<Rightarrow> (nat \<times> string) list \<Rightarrow> violation list" where
  "ledger_emitted cfg e [] = []"
| "ledger_emitted cfg e (nl # rest) =
     (case row_id (snd nl) of
        None \<Rightarrow> ledger_emitted cfg e rest
      | Some a \<Rightarrow>
          if match_asset_id a
          then (if row_number (snd nl) \<noteq> e then [sequence_violation cfg (fst nl) a e] else []) @
               ledger_emitted cfg (Suc (row_number (snd nl))) rest
          else format_violation cfg (fst nl) a # ledger_emitted cfg e rest)"

definition wf_numbers :: "(nat \<times> string) list \<Rightarrow> nat list" where
  "wf_numbers els = map (\<lambda>nl. row_number (snd nl)) (filter (\<lambda>nl. well_formed_row (snd nl)) els)"

definition row_ids :: "(nat \<times> string) list \<Rightarrow> string set" where
  "row_ids els = {a. \<exists>nl \<in> set els. row_id (snd nl) = Some a}"

subsection \<open>References in the prose\<close>

text \<open>
  The occurrences of asset-shaped tokens in a document, in reading order, each with the
  number of its line; the line of the first occurrence of a token; and the occurrences
  the scan reports when it starts with the IDs in \<open>seen\<close> as known or already reported
  (lemma \<open>prose_lines_result\<close>).
\<close>

definition prose_tokens :: "(nat \<times> string) list \<Rightarrow> (nat \<times> string) list" where
  "prose_tokens els = concat (map (\<lambda>nl. map (Pair (fst nl)) (finditer_asset (snd nl))) els)"

fun first_line :: "string \<Rightarrow> (nat \<times> string) list \<Rightarrow> nat option" where
  "first_line t [] = None"
| "first_line t (nt # rest) = (if snd nt = t then Some (fst nt) else first_line t rest)"

fun fresh_refs :: "string set \<Rightarrow> (nat \<times> string) list \<Rightarrow> (nat \<times> string) list" where
  "fresh_refs seen [] = []"
| "fresh_refs seen (nt # rest) =
     (if snd nt \<in> seen then fresh_refs seen rest
      else nt # fresh_refs (insert (snd nt) seen) rest)"

definition reference_violation :: "config \<Rightarrow> nat \<times> string \<Rightarrow> violation" where
  "reference_violation cfg nt =
     \<lparr>artifact = prose_artifact, line = Some (fst nt), requirement = USER_GUIDE_ASSET cfg,
      details = UnregisteredReference (snd nt)\<rparr>"

subsection \<open>Episode files and source episodes\<close>

text \<open>
  The entries the episode loop reads, the names from which it takes an ID, its violation,
  and the violations of the source check for one entry of the dictionary (lemma
  \<open>validate_asset_sources_result\<close>). A violation concerns an asset when its message is
  one of the two messages of the source check and names the asset.
\<close>

definition scanned :: "config \<Rightarrow> dir_entry \<Rightarrow> bool" where
  "scanned cfg entry = (entry_is_file entry \<and> entry_name entry \<notin> set (TRIAD_FILES cfg))"

definition yields_id :: "string \<Rightarrow> bool" where
  "yields_id name =
     (startswith name ''episode-'' \<and> endswith name ''.md'' \<and> id_part_of name \<noteq> [])"

definition episode_violation :: "config \<Rightarrow> string \<Rightarrow> violation" where
  "episode_violation cfg name =
     \<lparr>artifact = episode_artifact name, line = None, requirement = USER_GUIDE_ASSET cfg,
      details = InvalidEpisodeName name\<rparr>"

definition source_check :: "config \<Rightarrow> string set \<Rightarrow> string \<times> asset_meta \<Rightarrow> violation list" where
  "source_check cfg episode_ids am =
     (if meta_sources (snd am) = []
      then [\<lparr>artifact = ledger_artifact, line = Some (meta_line (snd am)),
             requirement = USER_GUIDE_ASSET cfg, details = NoSourceEpisode (fst am)\<rparr>]
      else map (\<lambda>episode_id.
                  \<lparr>artifact = ledger_artifact, line = Some (meta_line (snd am)),
                   requirement = USER_GUIDE_ASSET cfg,
                   details = MissingEpisode (fst am) episode_id\<rparr>)
             (filter (\<lambda>episode_id. episode_id \<notin> episode_ids) (meta_sources (snd am))))"

definition concerns_asset :: "string \<Rightarrow> violation \<Rightarrow> bool" where
  "concerns_asset a v =
     (case details v of
        NoSourceEpisode b \<Rightarrow> b = a
      | MissingEpisode b e \<Rightarrow> b = a
      | _ \<Rightarrow> False)"

subsection \<open>Sections\<close>

text \<open>
  The index of the first prose heading with a name, the indices found for the sections of
  the outline that are found, and the violations the loop over the outline appends when it
  starts with a given \<^verbatim>\<open>last_index\<close> (lemma \<open>structure_loop_violations\<close>).
\<close>

definition prose_index :: "section_entry list \<Rightarrow> string \<Rightarrow> nat option" where
  "prose_index prose_sections name = map_option fst (find_section name (enumerate 0 prose_sections))"

definition found_indices :: "section_entry list \<Rightarrow> section_entry list \<Rightarrow> nat list" where
  "found_indices prose_sections structure_sections =
     List.map_filter (\<lambda>s. prose_index prose_sections (sec_name s)) structure_sections"

fun structure_emitted ::
  "config \<Rightarrow> section_entry list \<Rightarrow> int \<Rightarrow> section_entry list \<Rightarrow> violation list" where
  "structure_emitted cfg prose_sections last_index [] = []"
| "structure_emitted cfg prose_sections last_index (s # rest) =
     (case find_section (sec_name s) (enumerate 0 prose_sections) of
        None \<Rightarrow>
          \<lparr>artifact = structure_artifact, line = Some (sec_line s),
           requirement = USER_GUIDE_STRUCTURE cfg, details = SectionNotFound (sec_name s)\<rparr> #
          structure_emitted cfg prose_sections last_index rest
      | Some found \<Rightarrow>
          (if int (fst found) \<le> last_index
           then [\<lparr>artifact = prose_artifact, line = Some (snd found),
                  requirement = USER_GUIDE_STRUCTURE cfg,
                  details = SectionOutOfOrder (sec_name s)\<rparr>]
           else []) @
          structure_emitted cfg prose_sections (int (fst found)) rest)"

subsection \<open>The whole run\<close>

text \<open>
  The dictionary the ledger loop builds from a given one (lemma \<open>ledger_lines_sources\<close>),
  and the violation of a missing artifact, which has no line.
\<close>

fun ledger_sources ::
  "(string \<times> asset_meta) list \<Rightarrow> (nat \<times> string) list \<Rightarrow> (string \<times> asset_meta) list" where
  "ledger_sources al [] = al"
| "ledger_sources al (nl # rest) =
     ledger_sources
       (case row_id (snd nl) of
          None \<Rightarrow> al
        | Some a \<Rightarrow> AList.update a (row_meta (fst nl) (snd nl)) al)
       rest"

definition missing_violation :: "string \<Rightarrow> string \<Rightarrow> message \<Rightarrow> violation" where
  "missing_violation a r d = \<lparr>artifact = a, line = None, requirement = r, details = d\<rparr>"

subsection \<open>Example inputs\<close>

text \<open>
  Ledgers, prose, directory listings and section lists on which the theorems are run.
  A line of a file ends with its newline character.
\<close>

definition empty_guide :: user_guide where
  "empty_guide =
     \<lparr>ledger_file = None, episodes_dir = None, prose_file = None, structure_file = None\<rparr>"

definition ledger_1_2_4 :: "string list" where
  "ledger_1_2_4 =
     [''| ID | Name | Type | Source Episode |'' @ [CHR 0x0A],
      ''|----|------|------|----------------|'' @ [CHR 0x0A],
      ''| asset-0001 | First | concept | 01 |'' @ [CHR 0x0A],
      ''| asset-0002 | Second | person | 02 |'' @ [CHR 0x0A],
      ''| asset-0004 | Fourth | person | 02 |'' @ [CHR 0x0A]]"

definition ledger_bad_width :: "string list" where
  "ledger_bad_width =
     [''| ID | Name | Type | Source Episode |'' @ [CHR 0x0A],
      ''|----|------|------|----------------|'' @ [CHR 0x0A],
      ''| asset-0001 | First | concept | 01 |'' @ [CHR 0x0A],
      ''| asset-1 | Narrow | concept | 01 |'' @ [CHR 0x0A],
      ''| asset-0002 | Second | person | 01 |'' @ [CHR 0x0A]]"

definition prose_three_mentions :: "string list" where
  "prose_three_mentions =
     [''# Prose'' @ [CHR 0x0A],
      ''This mentions asset-0001 and asset-9999.'' @ [CHR 0x0A],
      ''Again asset-9999, then asset-9999 twice.'' @ [CHR 0x0A],
      ''And asset-9999 once more with asset-0001.'' @ [CHR 0x0A]]"

definition sources_01_99 :: "(string \<times> asset_meta) list" where
  "sources_01_99 =
     [(''asset-0001'', \<lparr>meta_line = 5, meta_sources = [''01'', ''99'']\<rparr>),
      (''asset-0002'', \<lparr>meta_line = 6, meta_sources = []\<rparr>)]"

definition guide_only_episodes :: user_guide where
  "guide_only_episodes =
     \<lparr>ledger_file = None,
      episodes_dir = Some [\<lparr>entry_name = ''episode-01.md'', entry_is_file = True\<rparr>,
                           \<lparr>entry_name = ''notes.txt'', entry_is_file = True\<rparr>],
      prose_file = None, structure_file = None\<rparr>"

definition guide_two_notes :: "dir_entry list \<Rightarrow> user_guide" where
  "guide_two_notes entries =
     \<lparr>ledger_file = Some [], episodes_dir = Some entries, prose_file = Some [],
      structure_file = Some []\<rparr>"

definition entry_alpha :: dir_entry where
  "entry_alpha = \<lparr>entry_name = ''alpha.md'', entry_is_file = True\<rparr>"

definition entry_zeta :: dir_entry where
  "entry_zeta = \<lparr>entry_name = ''zeta.md'', entry_is_file = True\<rparr>"

definition ledger_narrow_only :: "string list" where
  "ledger_narrow_only = [''| asset-1 | Narrow | concept | 07 |'' @ [CHR 0x0A]]"

definition episodes_mixed :: "dir_entry list" where
  "episodes_mixed =
     [\<lparr>entry_name = ''episode-1.md'', entry_is_file = True\<rparr>,
      \<lparr>entry_name = ''README.md'', entry_is_file = True\<rparr>,
      \<lparr>entry_name = ''notes.txt'', entry_is_file = True\<rparr>,
      \<lparr>entry_name = ''episode-02.md'', entry_is_file = True\<rparr>]"

definition outline_ibc :: "section_entry list" where
  "outline_ibc =
     [\<lparr>sec_name = ''Intro'', sec_line = 3\<rparr>,
      \<lparr>sec_name = ''Background'', sec_line = 4\<rparr>,
      \<lparr>sec_name = ''Conclusion'', sec_line = 5\<rparr>]"

definition prose_cib :: "section_entry list" where
  "prose_cib =
     [\<lparr>sec_name = ''Conclusion'', sec_line = 3\<rparr>,
      \<lparr>sec_name = ''Intro'', sec_line = 7\<rparr>,
      \<lparr>sec_name = ''Background'', sec_line = 11\<rparr>]"

definition prose_bci :: "section_entry list" where
  "prose_bci =
     [\<lparr>sec_name = ''Background'', sec_line = 3\<rparr>,
      \<lparr>sec_name = ''Conclusion'', sec_line = 7\<rparr>,
      \<lparr>sec_name = ''Intro'', sec_line = 11\<rparr>]"

definition prose_interleaved :: "section_entry list" where
  "prose_interleaved =
     [\<lparr>sec_name = ''Preface'', sec_line = 1\<rparr>,
      \<lparr>sec_name = ''Intro'', sec_line = 3\<rparr>,
      \<lparr>sec_name = ''Aside'', sec_line = 5\<rparr>,
      \<lparr>sec_name = ''Background'', sec_line = 7\<rparr>,
      \<lparr>sec_name = ''Intro'', sec_line = 9\<rparr>,
      \<lparr>sec_name = ''Conclusion'', sec_line = 11\<rparr>]"

definition ledger_1_2_1_2 :: "string list" where
  "ledger_1_2_1_2 =
     [''| asset-0001 | First | concept | 01 |'' @ [CHR 0x0A],
      ''| asset-0002 | Second | person | 02 |'' @ [CHR 0x0A],
      ''| asset-0001 | First again | concept | 03 |'' @ [CHR 0x0A],
      ''| asset-0002 | Second again | person | |'' @ [CHR 0x0A]]"

section \<open>The reads of the ledger parser are in range\<close>

text \<open>
  \<^verbatim>\<open>split\<close> never returns the empty list, so \<^verbatim>\<open>columns[0]\<close> exists. An ID that matches the
  pattern splits at its dash into two parts, so \<^verbatim>\<open>asset_id.split("-")[1]\<close> exists, and what
  \<^verbatim>\<open>int\<close> reads are its four digits.
\<close>

lemma split_on_nonempty: "split_on sep s \<noteq> []"
  by (induction s) (auto split: list.splits)

lemma isdigit_facts: "isdigit d \<Longrightarrow> d \<noteq> CHR ''-'' \<and> \<not> isspace d"
  by (auto simp: isdigit_def isspace_def)

lemma isspace_newline: "isspace (CHR 0x0A)"
  by (simp add: isspace_def)

lemma length_four: "length xs = 4 \<Longrightarrow> \<exists>a b c d. xs = [a, b, c, d]"
  by (auto simp: numeral_eq_Suc length_Suc_conv)

lemma asset_id_shape:
  assumes "match_asset_id a"
  shows "\<exists>d1 d2 d3 d4 t. a = ''asset-'' @ [d1, d2, d3, d4] @ t \<and>
           isdigit d1 \<and> isdigit d2 \<and> isdigit d3 \<and> isdigit d4 \<and> (t = [] \<or> t = [CHR 0x0A])"
proof -
  from assms have p: "take 6 a = ''asset-''" and l: "length (take 4 (drop 6 a)) = 4"
    and d: "list_all isdigit (take 4 (drop 6 a))" and e: "drop 10 a = [] \<or> drop 10 a = [CHR 0x0A]"
    by (simp_all add: match_asset_id_def end_of_string_def)
  from length_four [OF l] obtain d1 d2 d3 d4 where ds: "take 4 (drop 6 a) = [d1, d2, d3, d4]"
    by blast
  have "take 4 (drop 6 a) @ drop 4 (drop 6 a) = drop 6 a"
    by (rule append_take_drop_id)
  moreover have "take 6 a @ drop 6 a = a"
    by (rule append_take_drop_id)
  moreover have "drop 4 (drop 6 a) = drop 10 a"
    by simp
  ultimately have "a = ''asset-'' @ [d1, d2, d3, d4] @ drop 10 a"
    by (simp only: p ds)
  with d e ds show ?thesis by auto
qed

lemma asset_id_number:
  assumes "match_asset_id a"
  shows "length (split_on CHR ''-'' a) = 2 \<and>
         strip (split_on CHR ''-'' a ! 1) = take 4 (drop 6 a) \<and>
         list_all isdigit (take 4 (drop 6 a))"
proof -
  from asset_id_shape [OF assms] obtain d1 d2 d3 d4 t
    where a: "a = ''asset-'' @ [d1, d2, d3, d4] @ t"
      and ds: "isdigit d1" "isdigit d2" "isdigit d3" "isdigit d4"
      and t: "t = [] \<or> t = [CHR 0x0A]"
    by blast
  from t show ?thesis
  proof
    assume "t = []"
    with a ds show ?thesis
      by (simp add: isdigit_facts strip_def)
  next
    assume "t = [CHR 0x0A]"
    with a ds show ?thesis
      by (simp add: isdigit_facts strip_def isspace_newline)
  qed
qed

lemma ledger_columns_nonempty:
  "map strip (split_on CHR ''|'' s) \<noteq> []"
  by (simp add: split_on_nonempty)

section \<open>The ledger parser\<close>

lemma ledger_line_skip:
  "row_id l = None \<Longrightarrow> ledger_line cfg st (n, l) = st"
  by (auto simp: ledger_line_def row_id_def row_columns_def Let_def split: if_splits)

lemma ledger_line_malformed:
  "row_id l = Some a \<Longrightarrow> \<not> match_asset_id a \<Longrightarrow>
   ledger_line cfg st (n, l) =
     st\<lparr>violations := violations st @ [format_violation cfg n a],
        asset_ids := insert a (asset_ids st),
        asset_sources := AList.update a (row_meta n l) (asset_sources st)\<rparr>"
  by (auto simp: ledger_line_def row_id_def row_columns_def row_sources_def row_meta_def
      format_violation_def add_violation_def Let_def split: if_splits)

lemma ledger_line_well_formed:
  "row_id l = Some a \<Longrightarrow> match_asset_id a \<Longrightarrow>
   ledger_line cfg st (n, l) =
     st\<lparr>violations :=
          violations st @
          (if row_number l \<noteq> expected_next_id st
           then [sequence_violation cfg n a (expected_next_id st)] else []),
        expected_next_id := Suc (row_number l),
        asset_ids := insert a (asset_ids st),
        asset_sources := AList.update a (row_meta n l) (asset_sources st)\<rparr>"
  by (auto simp: ledger_line_def row_id_def row_columns_def row_sources_def row_meta_def
      row_number_def sequence_violation_def add_violation_def Let_def split: if_splits)

lemma ledger_lines_violations:
  "violations (ledger_lines cfg st els) =
     violations st @ ledger_emitted cfg (expected_next_id st) els"
proof (induction els arbitrary: st)
  case Nil
  show ?case by simp
next
  case (Cons nl els)
  obtain n l where nl: "nl = (n, l)" by (cases nl)
  show ?case
  proof (cases "row_id l")
    case None
    then show ?thesis using Cons.IH nl by (simp add: ledger_line_skip)
  next
    case (Some a)
    then show ?thesis using Cons.IH nl
      by (cases "match_asset_id a") (simp_all add: ledger_line_malformed ledger_line_well_formed)
  qed
qed


lemma wf_numbers_simps:
  "wf_numbers [] = []"
  "row_id l = None \<Longrightarrow> wf_numbers ((n, l) # els) = wf_numbers els"
  "row_id l = Some a \<Longrightarrow> \<not> match_asset_id a \<Longrightarrow> wf_numbers ((n, l) # els) = wf_numbers els"
  "row_id l = Some a \<Longrightarrow> match_asset_id a \<Longrightarrow>
     wf_numbers ((n, l) # els) = row_number l # wf_numbers els"
  by (simp_all add: wf_numbers_def well_formed_row_def)

lemma row_kind_simps:
  "row_id l = None \<Longrightarrow> \<not> malformed_row l"
  "row_id l = None \<Longrightarrow> \<not> well_formed_row l"
  "row_id l = Some a \<Longrightarrow> malformed_row l = (\<not> match_asset_id a)"
  "row_id l = Some a \<Longrightarrow> well_formed_row l = match_asset_id a"
  by (simp_all add: malformed_row_def well_formed_row_def)

lemma upt_plus_Cons:
  "x # xs = [e..<e + k] \<Longrightarrow> x = e \<and> xs = [Suc e..<Suc e + (k - 1)] \<and> 0 < k"
  by (cases k) (auto simp: upt_conv_Cons)

lemma is_sequence_violation_simps [simp]:
  "is_sequence_violation (sequence_violation cfg n a e)"
  "\<not> is_sequence_violation (format_violation cfg n a)"
  by (simp_all add: is_sequence_violation_def sequence_violation_def format_violation_def)



lemma emitted_no_malformed:
  "wf_numbers els = [e..<e + k] \<Longrightarrow> filter (\<lambda>nl. malformed_row (snd nl)) els = [] \<Longrightarrow>
   ledger_emitted cfg e els = []"
proof (induction els arbitrary: e k)
  case Nil
  show ?case by simp
next
  case (Cons nl els)
  obtain n l where nl: "nl = (n, l)" by (cases nl)
  show ?case
  proof (cases "row_id l")
    case None
    with Cons nl show ?thesis by (simp add: wf_numbers_simps row_kind_simps)
  next
    case (Some a)
    show ?thesis
    proof (cases "match_asset_id a")
      case False
      with Cons.prems Some nl show ?thesis by (simp add: row_kind_simps)
    next
      case True
      with Cons.prems Some nl have "row_number l # wf_numbers els = [e..<e + k]"
        by (simp add: wf_numbers_simps)
      then have "row_number l = e" and "wf_numbers els = [Suc e..<Suc e + (k - 1)]"
        using upt_plus_Cons by blast+
      moreover from Cons.prems Some True nl have "filter (\<lambda>nl. malformed_row (snd nl)) els = []"
        by (simp add: row_kind_simps)
      ultimately show ?thesis using Cons.IH Some True nl by simp
    qed
  qed
qed

lemma emitted_one_malformed:
  "wf_numbers els = [e..<e + k] \<Longrightarrow> map snd (filter (\<lambda>nl. malformed_row (snd nl)) els) = [bad] \<Longrightarrow>
   \<exists>n a. (n, bad) \<in> set els \<and> row_id bad = Some a \<and> \<not> match_asset_id a \<and>
     ledger_emitted cfg e els = [format_violation cfg n a]"
proof (induction els arbitrary: e k)
  case Nil
  then show ?case by simp
next
  case (Cons nl els)
  obtain n l where nl: "nl = (n, l)" by (cases nl)
  show ?case
  proof (cases "row_id l")
    case None
    with Cons.prems nl have "wf_numbers els = [e..<e + k]"
      and "map snd (filter (\<lambda>nl. malformed_row (snd nl)) els) = [bad]"
      by (simp_all add: wf_numbers_simps row_kind_simps)
    from Cons.IH [OF this] None nl show ?thesis by auto
  next
    case (Some a)
    show ?thesis
    proof (cases "match_asset_id a")
      case False
      with Cons.prems Some nl have w: "wf_numbers els = [e..<e + k]"
        and "l = bad" and "filter (\<lambda>nl. malformed_row (snd nl)) els = []"
        by (simp_all add: wf_numbers_simps row_kind_simps)
      with emitted_no_malformed [OF w] Some False nl show ?thesis by auto
    next
      case True
      with Cons.prems Some nl have "row_number l # wf_numbers els = [e..<e + k]"
        by (simp add: wf_numbers_simps)
      then have e: "row_number l = e" and w: "wf_numbers els = [Suc e..<Suc e + (k - 1)]"
        using upt_plus_Cons by blast+
      from Cons.prems Some True nl have "map snd (filter (\<lambda>nl. malformed_row (snd nl)) els) = [bad]"
        by (simp add: row_kind_simps)
      from Cons.IH [OF w this] e Some True nl show ?thesis by auto
    qed
  qed
qed

lemma ledger_lines_append:
  "ledger_lines cfg st (xs @ ys) = ledger_lines cfg (ledger_lines cfg st xs) ys"
  by (induction xs arbitrary: st) simp_all

lemma ledger_line_ids:
  "asset_ids (ledger_line cfg st (n, l)) =
     asset_ids st \<union> (case row_id l of None \<Rightarrow> {} | Some a \<Rightarrow> {a})"
proof (cases "row_id l")
  case None
  then show ?thesis by (simp add: ledger_line_skip)
next
  case (Some a)
  then show ?thesis
    by (cases "match_asset_id a") (simp_all add: ledger_line_malformed ledger_line_well_formed)
qed

lemma ledger_line_keys:
  "fst ` set (asset_sources (ledger_line cfg st (n, l))) =
     fst ` set (asset_sources st) \<union> (case row_id l of None \<Rightarrow> {} | Some a \<Rightarrow> {a})"
proof (cases "row_id l")
  case None
  then show ?thesis by (simp add: ledger_line_skip)
next
  case (Some a)
  then show ?thesis
    by (cases "match_asset_id a")
       (simp_all add: ledger_line_malformed ledger_line_well_formed dom_update)
qed

lemma ledger_line_distinct:
  "distinct (map fst (asset_sources st)) \<Longrightarrow>
   distinct (map fst (asset_sources (ledger_line cfg st (n, l))))"
proof (cases "row_id l")
  case None
  then show "distinct (map fst (asset_sources st)) \<Longrightarrow> ?thesis" by (simp add: ledger_line_skip)
next
  case (Some a)
  then show "distinct (map fst (asset_sources st)) \<Longrightarrow> ?thesis"
    by (cases "match_asset_id a")
       (simp_all add: ledger_line_malformed ledger_line_well_formed distinct_update)
qed

lemma ledger_line_lookup:
  "map_of (asset_sources (ledger_line cfg st (n, l))) a =
     (if row_id l = Some a then Some (row_meta n l) else map_of (asset_sources st) a)"
proof (cases "row_id l")
  case None
  then show ?thesis by (simp add: ledger_line_skip)
next
  case (Some b)
  then show ?thesis
    by (cases "match_asset_id b")
       (simp_all add: ledger_line_malformed ledger_line_well_formed update_conv')
qed

lemma ledger_lines_ids:
  "asset_ids (ledger_lines cfg st els) = asset_ids st \<union> row_ids els"
proof (induction els arbitrary: st)
  case Nil
  show ?case by (simp add: row_ids_def)
next
  case (Cons nl els)
  obtain n l where nl: "nl = (n, l)" by (cases nl)
  have "row_ids (nl # els) = (case row_id l of None \<Rightarrow> {} | Some a \<Rightarrow> {a}) \<union> row_ids els"
    by (auto simp: row_ids_def nl split: option.splits)
  then show ?case by (simp add: Cons.IH nl ledger_line_ids Un_assoc)
qed

lemma ledger_lines_keys:
  "fst ` set (asset_sources (ledger_lines cfg st els)) =
     fst ` set (asset_sources st) \<union> row_ids els"
proof (induction els arbitrary: st)
  case Nil
  show ?case by (simp add: row_ids_def)
next
  case (Cons nl els)
  obtain n l where nl: "nl = (n, l)" by (cases nl)
  have "row_ids (nl # els) = (case row_id l of None \<Rightarrow> {} | Some a \<Rightarrow> {a}) \<union> row_ids els"
    by (auto simp: row_ids_def nl split: option.splits)
  then show ?case by (simp add: Cons.IH nl ledger_line_keys Un_assoc)
qed

lemma ledger_lines_distinct:
  "distinct (map fst (asset_sources st)) \<Longrightarrow>
   distinct (map fst (asset_sources (ledger_lines cfg st els)))"
proof (induction els arbitrary: st)
  case Nil
  then show ?case by simp
next
  case (Cons nl els)
  obtain n l where nl: "nl = (n, l)" by (cases nl)
  from Cons.prems have "distinct (map fst (asset_sources (ledger_line cfg st (n, l))))"
    by (rule ledger_line_distinct)
  then show ?case using Cons.IH nl by simp
qed

lemma ledger_lines_lookup_kept:
  "a \<notin> row_ids els \<Longrightarrow>
   map_of (asset_sources (ledger_lines cfg st els)) a = map_of (asset_sources st) a"
proof (induction els arbitrary: st)
  case Nil
  show ?case by simp
next
  case (Cons nl els)
  obtain n l where nl: "nl = (n, l)" by (cases nl)
  from Cons.prems nl have "row_id l \<noteq> Some a" and "a \<notin> row_ids els"
    by (auto simp: row_ids_def)
  with Cons.IH nl show ?case by (simp add: ledger_line_lookup)
qed

lemma ledger_lines_lookup_last:
  "row_id l = Some a \<Longrightarrow> a \<notin> row_ids post \<Longrightarrow>
   map_of (asset_sources (ledger_lines cfg st (pre @ (n, l) # post))) a = Some (row_meta n l)"
  by (simp add: ledger_lines_append ledger_lines_lookup_kept ledger_line_lookup)

lemma ledger_lines_counter:
  "expected_next_id (ledger_lines cfg st els) = last (expected_next_id st # map Suc (wf_numbers els))"
proof (induction els arbitrary: st)
  case Nil
  show ?case by (simp add: wf_numbers_simps)
next
  case (Cons nl els)
  obtain n l where nl: "nl = (n, l)" by (cases nl)
  show ?case
  proof (cases "row_id l")
    case None
    then show ?thesis using Cons.IH nl by (simp add: ledger_line_skip wf_numbers_simps)
  next
    case (Some a)
    then show ?thesis using Cons.IH nl
      by (cases "match_asset_id a")
         (simp_all add: ledger_line_malformed ledger_line_well_formed wf_numbers_simps)
  qed
qed

lemma emitted_lines:
  "v \<in> set (ledger_emitted cfg e els) \<Longrightarrow> \<exists>n \<in> fst ` set els. line v = Some n"
proof (induction els arbitrary: e)
  case Nil
  then show ?case by simp
next
  case (Cons nl els)
  then show ?case
    by (auto simp: sequence_violation_def format_violation_def split: option.splits if_splits)
qed

lemma emitted_silent_bound:
  "filter is_sequence_violation (ledger_emitted cfg e els) = [] \<Longrightarrow>
   (n, l) \<in> set els \<Longrightarrow> well_formed_row l \<Longrightarrow> e \<le> row_number l"
proof (induction els arbitrary: e)
  case Nil
  then show ?case by simp
next
  case (Cons x els)
  obtain n' l' where x: "x = (n', l')" by (cases x)
  show ?case
  proof (cases "row_id l'")
    case None
    with Cons.prems x have "filter is_sequence_violation (ledger_emitted cfg e els) = []"
      and "(n, l) \<in> set els"
      by (auto simp: row_kind_simps)
    with Cons.IH Cons.prems(3) show ?thesis by blast
  next
    case (Some a)
    show ?thesis
    proof (cases "match_asset_id a")
      case False
      with Cons.prems x Some have "filter is_sequence_violation (ledger_emitted cfg e els) = []"
        and "(n, l) \<in> set els"
        by (auto simp: row_kind_simps)
      with Cons.IH Cons.prems(3) show ?thesis by blast
    next
      case True
      with Cons.prems(1) x Some have e: "row_number l' = e"
        and rest: "filter is_sequence_violation (ledger_emitted cfg (Suc e) els) = []"
        by (auto split: if_splits)
      show ?thesis
      proof (cases "(n, l) = (n', l')")
        case True
        with e show ?thesis by simp
      next
        case False
        with Cons.prems(2) x have "(n, l) \<in> set els" by auto
        from Cons.IH [OF rest this Cons.prems(3)] show ?thesis by simp
      qed
    qed
  qed
qed

lemma ledger_emitted_append:
  "ledger_emitted cfg e (xs @ ys) =
     ledger_emitted cfg e xs @ ledger_emitted cfg (last (e # map Suc (wf_numbers xs))) ys"
proof (induction xs arbitrary: e)
  case Nil
  show ?case by (simp add: wf_numbers_simps)
next
  case (Cons nl xs)
  obtain n l where nl: "nl = (n, l)" by (cases nl)
  show ?case
  proof (cases "row_id l")
    case None
    then show ?thesis using Cons.IH nl by (simp add: wf_numbers_simps)
  next
    case (Some a)
    then show ?thesis using Cons.IH nl
      by (cases "match_asset_id a") (simp_all add: wf_numbers_simps)
  qed
qed

lemma wf_numbers_enumerate:
  "wf_numbers (enumerate n lines) = map row_number (filter well_formed_row lines)"
  by (induction lines arbitrary: n) (simp_all add: wf_numbers_def)

lemma malformed_enumerate:
  "map snd (filter (\<lambda>nl. malformed_row (snd nl)) (enumerate n lines)) = filter malformed_row lines"
  by (induction lines arbitrary: n) simp_all

lemma parse_asset_ledger_violations:
  "fst (parse_asset_ledger cfg (Some lines) vs) = vs @ ledger_emitted cfg 1 (enumerate 1 lines)"
  by (simp add: parse_asset_ledger_def Let_def ledger_lines_violations)

section \<open>The reference scan\<close>

lemma fresh_refs_append:
  "fresh_refs seen (xs @ ys) = fresh_refs seen xs @ fresh_refs (seen \<union> snd ` set xs) ys"
  by (induction xs arbitrary: seen) (auto simp: insert_absorb)

lemma fresh_refs_tokens: "snd ` set (fresh_refs seen xs) = snd ` set xs - seen"
  by (induction xs arbitrary: seen) auto

lemma fresh_refs_distinct: "distinct (map snd (fresh_refs seen xs))"
proof (induction xs arbitrary: seen)
  case Nil
  show ?case by simp
next
  case (Cons nt xs)
  have "snd nt \<notin> snd ` set (fresh_refs (insert (snd nt) seen) xs)"
    by (simp add: fresh_refs_tokens)
  with Cons show ?case by simp
qed

lemma fresh_refs_first:
  "nt \<in> set (fresh_refs seen xs) \<Longrightarrow> first_line (snd nt) xs = Some (fst nt)"
proof (induction xs arbitrary: seen)
  case Nil
  then show ?case by simp
next
  case (Cons x xs)
  show ?case
  proof (cases "snd x \<in> seen")
    case True
    with Cons.prems have mem: "nt \<in> set (fresh_refs seen xs)" by simp
    then have "snd nt \<in> snd ` set (fresh_refs seen xs)" by (rule imageI)
    then have "snd nt \<notin> seen" by (simp add: fresh_refs_tokens)
    with True have "snd x \<noteq> snd nt" by auto
    with Cons.IH [OF mem] show ?thesis by simp
  next
    case False
    show ?thesis
    proof (cases "nt = x")
      case True
      then show ?thesis by simp
    next
      case ne: False
      with False Cons.prems have mem: "nt \<in> set (fresh_refs (insert (snd x) seen) xs)" by simp
      then have "snd nt \<in> snd ` set (fresh_refs (insert (snd x) seen) xs)" by (rule imageI)
      then have "snd nt \<noteq> snd x" by (auto simp: fresh_refs_tokens)
      with Cons.IH [OF mem] show ?thesis by simp
    qed
  qed
qed

lemma prose_matches_result:
  "prose_matches cfg ids n st toks =
     (fst st \<union> (set toks - ids),
      snd st @ map (reference_violation cfg) (fresh_refs (ids \<union> fst st) (map (Pair n) toks)))"
proof (induction toks arbitrary: st)
  case Nil
  show ?case by simp
next
  case (Cons t toks)
  show ?case
    by (cases "t \<in> ids \<or> t \<in> fst st")
       (auto simp: Cons.IH add_violation_def reference_violation_def insert_absorb)
qed

lemma prose_lines_result:
  "prose_lines cfg ids st els =
     (fst st \<union> (snd ` set (prose_tokens els) - ids),
      snd st @ map (reference_violation cfg) (fresh_refs (ids \<union> fst st) (prose_tokens els)))"
proof (induction els arbitrary: st)
  case Nil
  show ?case by (simp add: prose_tokens_def)
next
  case (Cons nl els)
  have tok: "prose_tokens (nl # els) = map (Pair (fst nl)) (finditer_asset (snd nl)) @ prose_tokens els"
    by (simp add: prose_tokens_def)
  have img: "snd ` Pair (fst nl) ` set (finditer_asset (snd nl)) = set (finditer_asset (snd nl))"
    by force
  have seen: "ids \<union> (fst st \<union> (set (finditer_asset (snd nl)) - ids)) =
      ids \<union> fst st \<union> set (finditer_asset (snd nl))"
    by auto
  show ?case
    by (simp add: Cons.IH prose_matches_result tok fresh_refs_append img seen image_Un Un_Diff Un_assoc)
qed

lemma finditer_asset_well_formed: "t \<in> set (finditer_asset s) \<Longrightarrow> match_asset_id t"
proof (induction s rule: finditer_asset.induct)
  case 1
  then show ?case by simp
next
  case (2 c cs)
  show ?case
  proof (cases "asset_token_here (c # cs)")
    case True
    have "match_asset_id (take 10 (c # cs))"
      using True by (simp add: asset_token_here_def match_asset_id_def end_of_string_def drop_take)
    with 2 True show ?thesis by auto
  next
    case False
    with 2 show ?thesis by simp
  qed
qed

lemma prose_matches_insert:
  "a \<notin> set toks \<Longrightarrow> prose_matches cfg (insert a ids) n st toks = prose_matches cfg ids n st toks"
  by (induction toks arbitrary: st) auto

lemma prose_lines_insert:
  "\<not> match_asset_id a \<Longrightarrow> prose_lines cfg (insert a ids) st els = prose_lines cfg ids st els"
proof (induction els arbitrary: st)
  case Nil
  show ?case by simp
next
  case (Cons nl els)
  from Cons.prems have "a \<notin> set (finditer_asset (snd nl))"
    using finditer_asset_well_formed by blast
  with Cons show ?case by (simp add: prose_matches_insert)
qed

section \<open>The episode index and the source check\<close>

lemma episode_entry_result:
  "episode_entry cfg st entry =
     (fst st @ (if scanned cfg entry \<and> \<not> match_episode_name (entry_name entry)
                then [episode_violation cfg (entry_name entry)] else []),
      snd st \<union> (if scanned cfg entry \<and> yields_id (entry_name entry)
                  then {id_part_of (entry_name entry)} else {}))"
  by (cases st)
     (auto simp: episode_entry_def scanned_def yields_id_def episode_violation_def
        add_violation_def Let_def)

lemma episode_entries_result:
  "episode_entries cfg st entries =
     (fst st @ map (\<lambda>e. episode_violation cfg (entry_name e))
                 (filter (\<lambda>e. scanned cfg e \<and> \<not> match_episode_name (entry_name e)) entries),
      snd st \<union> (\<lambda>e. id_part_of (entry_name e)) `
                 {e \<in> set entries. scanned cfg e \<and> yields_id (entry_name e)})"
proof (induction entries arbitrary: st)
  case Nil
  show ?case by simp
next
  case (Cons entry entries)
  show ?case
    unfolding episode_entries.simps Cons.IH
    by (auto simp: episode_entry_result)
qed

lemma source_episodes_result:
  "source_episodes cfg episode_ids a ln vs sources =
     vs @ map (\<lambda>episode_id.
                 \<lparr>artifact = ledger_artifact, line = Some ln, requirement = USER_GUIDE_ASSET cfg,
                  details = MissingEpisode a episode_id\<rparr>)
            (filter (\<lambda>episode_id. episode_id \<notin> episode_ids) sources)"
  by (induction sources arbitrary: vs) (simp_all add: add_violation_def)

lemma validate_asset_sources_result:
  "validate_asset_sources cfg srcs episode_ids vs =
     vs @ concat (map (source_check cfg episode_ids) srcs)"
proof (induction srcs arbitrary: vs)
  case Nil
  show ?case by simp
next
  case (Cons am srcs)
  obtain a meta where am: "am = (a, meta)" by (cases am)
  show ?case
    by (simp add: am Cons.IH source_episodes_result source_check_def add_violation_def)
qed

lemma source_check_concerns:
  "filter (concerns_asset a) (source_check cfg episode_ids am) =
     (if fst am = a then source_check cfg episode_ids am else [])"
  by (auto simp: source_check_def concerns_asset_def filter_empty_conv)

lemma source_checks_of_asset:
  "distinct (map fst srcs) \<Longrightarrow> (a, meta) \<in> set srcs \<Longrightarrow>
   filter (concerns_asset a) (concat (map (source_check cfg episode_ids) srcs)) =
     source_check cfg episode_ids (a, meta)"
proof (induction srcs)
  case Nil
  then show ?case by simp
next
  case (Cons am srcs)
  show ?case
  proof (cases "am = (a, meta)")
    case True
    with Cons.prems have "a \<notin> fst ` set srcs" by simp
    then have "\<forall>x\<in>set srcs. fst x \<noteq> a" by auto
    then have "filter (concerns_asset a) (concat (map (source_check cfg episode_ids) srcs)) = []"
      by (induction srcs) (simp_all add: source_check_concerns)
    with True show ?thesis by (simp add: source_check_concerns)
  next
    case False
    with Cons.prems have mem: "(a, meta) \<in> set srcs" and d: "distinct (map fst srcs)" by simp_all
    from mem have "a \<in> fst ` set srcs" by force
    with Cons.prems(1) have "fst am \<noteq> a" by auto
    with Cons.IH [OF d mem] show ?thesis by (simp add: source_check_concerns)
  qed
qed

section \<open>The order of the sections\<close>

lemma structure_loop_violations:
  "snd (structure_loop cfg prose_sections st ss) =
     snd st @ structure_emitted cfg prose_sections (fst st) ss"
  by (induction ss arbitrary: st) (auto simp: add_violation_def split: option.splits)

lemma structure_loop_index:
  "fst (structure_loop cfg prose_sections st ss) =
     last (fst st # map int (found_indices prose_sections ss))"
proof (induction ss arbitrary: st)
  case Nil
  show ?case by (simp add: found_indices_def)
next
  case (Cons s ss)
  show ?case
    by (cases "find_section (sec_name s) (enumerate 0 prose_sections)")
       (simp_all add: Cons.IH found_indices_def prose_index_def)
qed

lemma structure_emitted_none:
  "structure_emitted cfg prose_sections last_index ss = [] \<longleftrightarrow>
     (\<forall>s \<in> set ss. prose_index prose_sections (sec_name s) \<noteq> None) \<and>
     sorted_wrt (<) (last_index # map (\<lambda>s. int (the (prose_index prose_sections (sec_name s)))) ss)"
proof (induction ss arbitrary: last_index)
  case Nil
  show ?case by simp
next
  case (Cons s ss)
  show ?case
  proof (cases "find_section (sec_name s) (enumerate 0 prose_sections)")
    case None
    then show ?thesis by (simp add: prose_index_def)
  next
    case (Some found)
    then have idx: "prose_index prose_sections (sec_name s) = Some (fst found)"
      by (simp add: prose_index_def)
    show ?thesis
      using Some idx Cons.IH [of "int (fst found)"] by (auto; force)
  qed
qed

section \<open>The stages of the validation\<close>

lemma ledger_lines_sources:
  "asset_sources (ledger_lines cfg st els) = ledger_sources (asset_sources st) els"
proof (induction els arbitrary: st)
  case Nil
  show ?case by simp
next
  case (Cons nl els)
  obtain n l where nl: "nl = (n, l)" by (cases nl)
  show ?case
  proof (cases "row_id l")
    case None
    then show ?thesis using Cons.IH nl by (simp add: ledger_line_skip)
  next
    case (Some a)
    then show ?thesis using Cons.IH nl
      by (cases "match_asset_id a") (simp_all add: ledger_line_malformed ledger_line_well_formed)
  qed
qed

lemma parse_asset_ledger_append:
  "parse_asset_ledger cfg ledger vs =
     (vs @ fst (parse_asset_ledger cfg ledger []), snd (parse_asset_ledger cfg ledger []))"
  by (cases ledger)
     (simp_all add: parse_asset_ledger_def Let_def add_violation_def ledger_lines_violations
        ledger_lines_ids ledger_lines_sources)

lemma list_episode_ids_append:
  "list_episode_ids cfg dir vs =
     (vs @ fst (list_episode_ids cfg dir []), snd (list_episode_ids cfg dir []))"
  by (cases dir) (simp_all add: list_episode_ids_def episode_entries_result)

lemma validate_prose_references_append:
  "validate_prose_references cfg prose ids vs = vs @ validate_prose_references cfg prose ids []"
  by (cases prose)
     (simp_all add: validate_prose_references_def add_violation_def prose_lines_result)

lemma validate_asset_sources_append:
  "validate_asset_sources cfg srcs episode_ids vs =
     vs @ validate_asset_sources cfg srcs episode_ids []"
  by (simp add: validate_asset_sources_result)

lemma validate_structure_order_append:
  "validate_structure_order cfg ss ps se pe vs = vs @ validate_structure_order cfg ss ps se pe []"
  by (simp add: validate_structure_order_def add_violation_def structure_loop_violations)

lemma validate_stages:
  "validate cfg (Some ug) =
     fst (parse_asset_ledger cfg (ledger_file ug) []) @
     fst (list_episode_ids cfg (episodes_dir ug) []) @
     validate_prose_references cfg (prose_file ug)
       (fst (snd (parse_asset_ledger cfg (ledger_file ug) []))) [] @
     validate_asset_sources cfg (snd (snd (parse_asset_ledger cfg (ledger_file ug) [])))
       (snd (list_episode_ids cfg (episodes_dir ug) [])) [] @
     validate_structure_order cfg (parse_structure_sections (structure_file ug))
       (parse_prose_sections (prose_file ug)) (structure_file ug \<noteq> None) (prose_file ug \<noteq> None) []"
proof -
  let ?A = "fst (parse_asset_ledger cfg (ledger_file ug) [])"
  let ?E = "fst (list_episode_ids cfg (episodes_dir ug) [])"
  let ?ids = "fst (snd (parse_asset_ledger cfg (ledger_file ug) []))"
  let ?srcs = "snd (snd (parse_asset_ledger cfg (ledger_file ug) []))"
  let ?eps = "snd (list_episode_ids cfg (episodes_dir ug) [])"
  let ?P = "validate_prose_references cfg (prose_file ug) ?ids []"
  let ?S = "validate_asset_sources cfg ?srcs ?eps []"
  have l: "list_episode_ids cfg (episodes_dir ug) ?A = (?A @ ?E, ?eps)"
    by (rule list_episode_ids_append)
  have p: "validate_prose_references cfg (prose_file ug) ?ids (?A @ ?E) = (?A @ ?E) @ ?P"
    by (rule validate_prose_references_append)
  have s: "validate_asset_sources cfg ?srcs ?eps ((?A @ ?E) @ ?P) = ((?A @ ?E) @ ?P) @ ?S"
    by (rule validate_asset_sources_append)
  have "validate cfg (Some ug) =
      validate_structure_order cfg (parse_structure_sections (structure_file ug))
        (parse_prose_sections (prose_file ug)) (structure_file ug \<noteq> None) (prose_file ug \<noteq> None)
        (((?A @ ?E) @ ?P) @ ?S)"
    by (simp only: validate_def Let_def option.case l fst_conv snd_conv p s)
  also have "\<dots> = (((?A @ ?E) @ ?P) @ ?S) @
      validate_structure_order cfg (parse_structure_sections (structure_file ug))
        (parse_prose_sections (prose_file ug)) (structure_file ug \<noteq> None) (prose_file ug \<noteq> None) []"
    by (rule validate_structure_order_append)
  finally show ?thesis by simp
qed

section \<open>What the parser returns\<close>

lemma parse_asset_ledger_ids:
  "fst (snd (parse_asset_ledger cfg (Some lines) vs)) = row_ids (enumerate 1 lines)"
  by (simp add: parse_asset_ledger_def Let_def ledger_lines_ids)

lemma parse_asset_ledger_keys:
  "fst ` set (snd (snd (parse_asset_ledger cfg (Some lines) vs))) = row_ids (enumerate 1 lines)"
  by (simp add: parse_asset_ledger_def Let_def ledger_lines_keys)

lemma validate_prose_references_insert:
  "\<not> match_asset_id a \<Longrightarrow>
   validate_prose_references cfg prose (insert a ids) vs = validate_prose_references cfg prose ids vs"
  by (cases prose) (simp_all add: validate_prose_references_def prose_lines_insert)

lemma row_ids_enumerate:
  "row_ids (enumerate n lines) = {a. \<exists>l \<in> set lines. row_id l = Some a}"
proof -
  have img: "snd ` set (enumerate n lines) = set lines"
    by (metis map_snd_enumerate set_map)
  have "row_ids els = {a. \<exists>l \<in> snd ` set els. row_id l = Some a}" for els
    by (auto simp: row_ids_def)
  then show ?thesis by (simp only: img)
qed

lemma emitted_format_violation:
  "(n, l) \<in> set els \<Longrightarrow> row_id l = Some a \<Longrightarrow> \<not> match_asset_id a \<Longrightarrow>
   format_violation cfg n a \<in> set (ledger_emitted cfg e els)"
proof (induction els arbitrary: e)
  case Nil
  then show ?case by simp
next
  case (Cons x els)
  show ?case
  proof (cases "x = (n, l)")
    case True
    with Cons.prems show ?thesis by simp
  next
    case False
    with Cons.prems have "(n, l) \<in> set els" by simp
    from Cons.IH [OF this Cons.prems(2,3)] show ?thesis
      by (auto split: option.splits)
  qed
qed

lemma parse_asset_ledger_sources:
  "snd (snd (parse_asset_ledger cfg (Some lines) vs)) = ledger_sources [] (enumerate 1 lines)"
  by (simp add: parse_asset_ledger_def Let_def ledger_lines_sources)

lemma parse_asset_ledger_distinct:
  "distinct (map fst (snd (snd (parse_asset_ledger cfg ledger vs))))"
proof (cases ledger)
  case None
  then show ?thesis by (simp add: parse_asset_ledger_def)
next
  case (Some lines)
  have "distinct (map fst (asset_sources
      (ledger_lines cfg \<lparr>expected_next_id = 1, asset_ids = {}, asset_sources = [], violations = vs\<rparr>
         (enumerate 1 lines))))"
    by (rule ledger_lines_distinct) simp
  with Some show ?thesis by (simp add: parse_asset_ledger_def Let_def)
qed

lemma parse_asset_ledger_lookup_last:
  assumes "row_id l = Some a" and "\<forall>r \<in> set post. row_id r \<noteq> Some a"
  shows "map_of (snd (snd (parse_asset_ledger cfg (Some (pre @ l # post)) vs))) a =
           Some (row_meta (Suc (length pre)) l)"
proof -
  have en: "enumerate 1 (pre @ l # post) =
      enumerate 1 pre @ (Suc (length pre), l) # enumerate (Suc (Suc (length pre))) post"
    by (simp add: enumerate_append_eq)
  from assms(2) have "a \<notin> row_ids (enumerate (Suc (Suc (length pre))) post)"
    unfolding row_ids_enumerate by blast
  from ledger_lines_lookup_last [OF assms(1) this]
  show ?thesis by (simp only: parse_asset_ledger_def Let_def option.case snd_conv en)
qed

lemma repeated_row_sequence_violation:
  assumes "row_id l1 = Some a" and "row_id l2 = Some a" and "match_asset_id a"
  shows "\<exists>v \<in> set (fst (parse_asset_ledger cfg (Some (pre @ l1 # mid @ l2 # post)) vs)).
           is_sequence_violation v \<and>
           (\<exists>n. line v = Some n \<and> Suc (length pre) < n \<and> n \<le> length pre + length mid + 2)"
proof -
  let ?A = "enumerate 1 pre @ [(Suc (length pre), l1)]"
  let ?seg = "enumerate (Suc (Suc (length pre))) (mid @ [l2])"
  let ?C = "enumerate (Suc (Suc (Suc (length pre + length mid)))) post"
  have en: "enumerate 1 (pre @ l1 # mid @ l2 # post) = ?A @ ?seg @ ?C"
    by (simp add: enumerate_append_eq)
  have wl1: "well_formed_row l1" and wl2: "well_formed_row l2"
    using assms by (simp_all add: row_kind_simps)
  have num: "row_number l2 = row_number l1"
    using assms by (simp add: row_number_def)
  have "wf_numbers ?A = wf_numbers (enumerate 1 pre) @ [row_number l1]"
    using wl1 by (simp add: wf_numbers_def)
  then have cnt: "last (1 # map Suc (wf_numbers ?A)) = Suc (row_number l1)"
    by simp
  have mem: "(Suc (Suc (length pre + length mid)), l2) \<in> set ?seg"
    by (simp add: enumerate_append_eq)
  have "filter is_sequence_violation (ledger_emitted cfg (Suc (row_number l1)) ?seg) \<noteq> []"
  proof
    assume "filter is_sequence_violation (ledger_emitted cfg (Suc (row_number l1)) ?seg) = []"
    from emitted_silent_bound [OF this mem wl2] num show False by simp
  qed
  then obtain v where v: "v \<in> set (ledger_emitted cfg (Suc (row_number l1)) ?seg)"
    and sv: "is_sequence_violation v"
    by (auto simp: filter_empty_conv)
  from emitted_lines [OF v] obtain n where n: "n \<in> fst ` set ?seg" and ln: "line v = Some n"
    by blast
  from n have "n \<in> set (map fst ?seg)" by (simp only: set_map)
  then have "n \<in> set [Suc (Suc (length pre))..<Suc (Suc (length pre)) + length (mid @ [l2])]"
    by (simp only: map_fst_enumerate)
  then have bounds: "Suc (length pre) < n \<and> n \<le> length pre + length mid + 2"
    by auto
  have "fst (parse_asset_ledger cfg (Some (pre @ l1 # mid @ l2 # post)) vs) =
      vs @ ledger_emitted cfg 1 ?A @ ledger_emitted cfg (Suc (row_number l1)) ?seg @
      ledger_emitted cfg (last (Suc (row_number l1) # map Suc (wf_numbers ?seg))) ?C"
    unfolding parse_asset_ledger_violations en
    by (simp only: ledger_emitted_append cnt)
  with v have "v \<in> set (fst (parse_asset_ledger cfg (Some (pre @ l1 # mid @ l2 # post)) vs))"
    by simp
  with sv ln bounds show ?thesis by blast
qed

lemma emitted_kinds:
  "v \<in> set (ledger_emitted cfg e els) \<Longrightarrow> is_sequence_violation v \<or> is_format_violation v"
proof (induction els arbitrary: e)
  case Nil
  then show ?case by simp
next
  case (Cons nl els)
  then show ?case
    by (auto simp: is_format_violation_def format_violation_def split: option.splits if_splits)
qed

section \<open>The claims\<close>

text \<open>
  Each claim of the specification is stated on the model above. Where the code does not do
  what a claim says, the run that shows it comes first and the statement that holds of the
  code follows.
\<close>

subsection \<open>C1: the order of the sections\<close>

text \<open>
  C1, as the code has it. The validator walks the sections of the outline, looks each one
  up at the first prose heading of that name, and compares the index found with
  \<^verbatim>\<open>last_index\<close>, which it then sets to the index found whether or not it emitted a
  violation. The first theorem runs it on the outline Intro, Background, Conclusion. With
  the prose headings Conclusion, Intro, Background the only violation is the out-of-order
  one for Conclusion, on its prose line: none for Intro. With the prose headings
  Background, Conclusion, Intro the only violation is the one for Background: Conclusion is
  found below the highest index matched so far and is not reported, since it is compared
  with the index of Background.
\<close>

theorem structure_order_counterexample:
  "validate_structure_order old_config outline_ibc prose_cib True True [] =
     [\<lparr>artifact = ''user-guide/prose/draft.md'', line = Some 3,
       requirement = ''user-guide/CANON.md:64-66 (FSM Validation Details)'',
       details = SectionOutOfOrder ''Conclusion''\<rparr>] \<and>
   validate_structure_order old_config outline_ibc prose_bci True True [] =
     [\<lparr>artifact = ''user-guide/prose/draft.md'', line = Some 3,
       requirement = ''user-guide/CANON.md:64-66 (FSM Validation Details)'',
       details = SectionOutOfOrder ''Background''\<rparr>]"
  by code_simp

text \<open>
  C1 amended. The validator adds no violation exactly when every section of the outline is
  the name of a prose heading and the indices of the first prose headings of those names
  are strictly increasing in outline order; other headings in between do not matter. After
  any part of the walk \<^verbatim>\<open>last_index\<close> is the index found for the last section that was
  found, not the highest one. For the outline Intro, Background, Conclusion and the prose
  headings Conclusion, Intro, Background it adds exactly one violation, the out-of-order
  one for Conclusion on the prose line of that heading.
\<close>

theorem structure_order_first_occurrences:
  "(validate_structure_order cfg structure_sections prose_sections True True vs = vs \<longleftrightarrow>
      (\<forall>s \<in> set structure_sections. prose_index prose_sections (sec_name s) \<noteq> None) \<and>
      sorted_wrt (<)
        (map (\<lambda>s. the (prose_index prose_sections (sec_name s))) structure_sections)) \<and>
   fst (structure_loop cfg prose_sections (last_index, vs) structure_sections) =
     last (last_index # map int (found_indices prose_sections structure_sections)) \<and>
   validate_structure_order cfg
     [\<lparr>sec_name = ''Intro'', sec_line = i\<rparr>, \<lparr>sec_name = ''Background'', sec_line = b\<rparr>,
      \<lparr>sec_name = ''Conclusion'', sec_line = c\<rparr>]
     [\<lparr>sec_name = ''Conclusion'', sec_line = c'\<rparr>, \<lparr>sec_name = ''Intro'', sec_line = i'\<rparr>,
      \<lparr>sec_name = ''Background'', sec_line = b'\<rparr>]
     True True vs =
     vs @ [\<lparr>artifact = prose_artifact, line = Some c', requirement = USER_GUIDE_STRUCTURE cfg,
            details = SectionOutOfOrder ''Conclusion''\<rparr>]"
proof (intro conjI)
  have "sorted_wrt (<) ((- 1) # map (\<lambda>s. int (the (prose_index prose_sections (sec_name s))))
          structure_sections) \<longleftrightarrow>
        sorted_wrt (<) (map (\<lambda>s. the (prose_index prose_sections (sec_name s))) structure_sections)"
    by (simp add: sorted_wrt_map)
  then show "validate_structure_order cfg structure_sections prose_sections True True vs = vs \<longleftrightarrow>
      (\<forall>s \<in> set structure_sections. prose_index prose_sections (sec_name s) \<noteq> None) \<and>
      sorted_wrt (<)
        (map (\<lambda>s. the (prose_index prose_sections (sec_name s))) structure_sections)"
    using structure_emitted_none [of cfg prose_sections "- 1" structure_sections]
    by (simp add: validate_structure_order_def structure_loop_violations)
  show "fst (structure_loop cfg prose_sections (last_index, vs) structure_sections) =
     last (last_index # map int (found_indices prose_sections structure_sections))"
    by (simp add: structure_loop_index)
  show "validate_structure_order cfg
     [\<lparr>sec_name = ''Intro'', sec_line = i\<rparr>, \<lparr>sec_name = ''Background'', sec_line = b\<rparr>,
      \<lparr>sec_name = ''Conclusion'', sec_line = c\<rparr>]
     [\<lparr>sec_name = ''Conclusion'', sec_line = c'\<rparr>, \<lparr>sec_name = ''Intro'', sec_line = i'\<rparr>,
      \<lparr>sec_name = ''Background'', sec_line = b'\<rparr>]
     True True vs =
     vs @ [\<lparr>artifact = prose_artifact, line = Some c', requirement = USER_GUIDE_STRUCTURE cfg,
            details = SectionOutOfOrder ''Conclusion''\<rparr>]"
    by (simp add: validate_structure_order_def add_violation_def)
qed

lemma prose_interleaved_indices:
  "map (\<lambda>s. prose_index prose_interleaved (sec_name s)) outline_ibc = [Some 1, Some 3, Some 5]"
  by code_simp

theorem structure_order_first_occurrences_witness:
  "validate_structure_order old_config outline_ibc prose_interleaved True True [] = [] \<and>
   list_all (\<lambda>s. prose_index prose_interleaved (sec_name s) \<noteq> None) outline_ibc \<and>
   sorted_wrt (<) (map (\<lambda>s. the (prose_index prose_interleaved (sec_name s))) outline_ibc)"
proof -
  have f: "\<forall>s \<in> set outline_ibc. prose_index prose_interleaved (sec_name s) \<noteq> None"
    using prose_interleaved_indices by (simp add: outline_ibc_def)
  have s: "sorted_wrt (<) (map (\<lambda>s. the (prose_index prose_interleaved (sec_name s))) outline_ibc)"
    using prose_interleaved_indices by (simp add: outline_ibc_def)
  from structure_order_first_occurrences
    [of old_config outline_ibc prose_interleaved "[]"] f s
  show ?thesis by (simp add: list_all_iff)
qed

subsection \<open>C2: sequential numbering of the ledger\<close>



lemma ledger_1_2_4_run:
  "fst (parse_asset_ledger old_config (Some ledger_1_2_4) []) =
     [\<lparr>artifact = ''user-guide/assets/LEDGER.md'', line = Some 5,
       requirement = ''user-guide/CANON.md:60-63 (FSM Validation Details)'',
       details = BreaksSequentialOrder ''asset-0004'' 3\<rparr>] \<and>
   message_text (BreaksSequentialOrder ''asset-0004'' 3) =
     ''Asset ID asset-0004 breaks sequential order (expected: asset-0003).''"
  by code_simp


subsection \<open>C3: a row with a malformed ID\<close>

text \<open>
  C3, as the code has it. The parser adds the ID of every data row to the set and to the
  dictionary after the format check, whatever the check said. The first theorem is the
  run on a ledger whose only row has the ID \<^verbatim>\<open>asset-1\<close>: the ID is in the returned set and
  the dictionary has its line and sources, so the claim that such a row is excluded fails.
\<close>

theorem malformed_id_registered_counterexample:
  "''asset-1'' \<in> fst (snd (parse_asset_ledger old_config (Some ledger_narrow_only) [])) \<and>
   map_of (snd (snd (parse_asset_ledger old_config (Some ledger_narrow_only) []))) ''asset-1'' =
     Some \<lparr>meta_line = 1, meta_sources = [''07'']\<rparr> \<and>
   \<not> match_asset_id ''asset-1''"
  by code_simp

text \<open>
  C3 amended. A row whose ID fails the pattern is reported with a format violation on its
  line, and its ID is in the returned set and among the keys of the returned dictionary.
  Such an ID still never satisfies a reference from the prose: no token the scan finds in a
  line equals it, and adding it to the known IDs changes no result of the reference scan.
\<close>

theorem malformed_id_registered:
  assumes "l \<in> set lines" and "row_id l = Some a" and "\<not> match_asset_id a"
  shows "a \<in> fst (snd (parse_asset_ledger cfg (Some lines) vs)) \<and>
         a \<in> fst ` set (snd (snd (parse_asset_ledger cfg (Some lines) vs))) \<and>
         (\<exists>n. (n, l) \<in> set (enumerate 1 lines) \<and>
            \<lparr>artifact = ledger_artifact, line = Some n, requirement = USER_GUIDE_ASSET cfg,
             details = InvalidAssetFormat a\<rparr> \<in> set (fst (parse_asset_ledger cfg (Some lines) vs))) \<and>
         a \<notin> set (finditer_asset s) \<and>
         validate_prose_references cfg prose (insert a ids) ws =
           validate_prose_references cfg prose ids ws"
proof (intro conjI)
  from assms(1,2) have mem: "a \<in> row_ids (enumerate 1 lines)"
    unfolding row_ids_enumerate by blast
  then show "a \<in> fst (snd (parse_asset_ledger cfg (Some lines) vs))"
    by (simp only: parse_asset_ledger_ids)
  from mem show "a \<in> fst ` set (snd (snd (parse_asset_ledger cfg (Some lines) vs)))"
    by (simp only: parse_asset_ledger_keys)
  from assms(1) have "l \<in> snd ` set (enumerate 1 lines)"
    by (metis map_snd_enumerate set_map)
  then obtain n where n: "(n, l) \<in> set (enumerate 1 lines)" by force
  from emitted_format_violation [OF n assms(2,3), of cfg 1]
  have "\<lparr>artifact = ledger_artifact, line = Some n, requirement = USER_GUIDE_ASSET cfg,
          details = InvalidAssetFormat a\<rparr> \<in> set (fst (parse_asset_ledger cfg (Some lines) vs))"
    by (simp add: parse_asset_ledger_violations format_violation_def)
  with n show "\<exists>n. (n, l) \<in> set (enumerate 1 lines) \<and>
            \<lparr>artifact = ledger_artifact, line = Some n, requirement = USER_GUIDE_ASSET cfg,
             details = InvalidAssetFormat a\<rparr> \<in> set (fst (parse_asset_ledger cfg (Some lines) vs))"
    by blast
  from assms(3) show "a \<notin> set (finditer_asset s)"
    using finditer_asset_well_formed by blast
  from assms(3) show "validate_prose_references cfg prose (insert a ids) ws =
           validate_prose_references cfg prose ids ws"
    by (rule validate_prose_references_insert)
qed

theorem malformed_id_registered_witness:
  "''| asset-1 | Narrow | concept | 07 |'' @ [CHR 0x0A] \<in> set ledger_narrow_only \<and>
   row_id (''| asset-1 | Narrow | concept | 07 |'' @ [CHR 0x0A]) = Some ''asset-1'' \<and>
   \<not> match_asset_id ''asset-1'' \<and>
   ''asset-1'' \<in> fst (snd (parse_asset_ledger old_config (Some ledger_narrow_only) [])) \<and>
   ''asset-1'' \<in> fst ` set (snd (snd (parse_asset_ledger old_config (Some ledger_narrow_only) []))) \<and>
   ''asset-1'' \<notin> set (finditer_asset ''see asset-1 and asset-12345'') \<and>
   validate_prose_references old_config (Some [''see asset-1 and asset-12345''])
     (insert ''asset-1'' {}) [] =
   validate_prose_references old_config (Some [''see asset-1 and asset-12345'']) {} []"
proof -
  have h1: "''| asset-1 | Narrow | concept | 07 |'' @ [CHR 0x0A] \<in> set ledger_narrow_only"
    by (simp add: ledger_narrow_only_def)
  have h2: "row_id (''| asset-1 | Narrow | concept | 07 |'' @ [CHR 0x0A]) = Some ''asset-1''"
    by code_simp
  have h3: "\<not> match_asset_id ''asset-1''"
    by (simp add: match_asset_id_def)
  from malformed_id_registered [OF h1 h2 h3, of old_config "[]" "''see asset-1 and asset-12345''"
      "Some [''see asset-1 and asset-12345'']" "{}" "[]"] h1 h2 h3
  show ?thesis by blast
qed

subsection \<open>C4: files of the episode directory with a badly formed name\<close>

text \<open>
  C4, as the code has it. After the format check, the name is tested a second time, with
  \<^verbatim>\<open>startswith("episode-")\<close> and \<^verbatim>\<open>endswith(".md")\<close>, and what stands between the two is
  added to the set whenever it is not empty. The first theorem is the run on a directory
  whose only file is \<^verbatim>\<open>episode-1.md\<close>: the name fails the pattern, the format violation is
  emitted, and the ID \<^verbatim>\<open>1\<close> is returned all the same.
\<close>

theorem misnamed_episode_counterexample:
  "\<not> match_episode_name ''episode-1.md'' \<and>
   list_episode_ids old_config (Some [\<lparr>entry_name = ''episode-1.md'', entry_is_file = True\<rparr>]) [] =
     ([\<lparr>artifact = ''user-guide/episodes/episode-1.md'', line = None,
        requirement = ''user-guide/CANON.md:60-63 (FSM Validation Details)'',
        details = InvalidEpisodeName ''episode-1.md''\<rparr>],
      {''1''})"
  by code_simp

text \<open>
  C4 amended. The entries read are the regular files other than the triad names. Each of
  them whose name fails the pattern gets exactly one format violation, in the order of the
  listing, and the scan goes on to the end of the listing. The returned set holds, for
  every entry read whose name starts with \<^verbatim>\<open>episode-\<close>, ends with \<^verbatim>\<open>.md\<close> and has something
  between the two, that middle part, whether the name matched the pattern or not; an entry
  of any other name adds nothing. Where the name matches the pattern and yields an ID, the
  ID is its two digits.
\<close>

theorem misnamed_episode_files:
  "list_episode_ids cfg (Some entries) vs =
     (vs @ map (\<lambda>e. \<lparr>artifact = episode_artifact (entry_name e), line = None,
                       requirement = USER_GUIDE_ASSET cfg,
                       details = InvalidEpisodeName (entry_name e)\<rparr>)
             (filter (\<lambda>e. scanned cfg e \<and> \<not> match_episode_name (entry_name e)) entries),
      (\<lambda>e. id_part_of (entry_name e)) `
        {e \<in> set entries. scanned cfg e \<and> yields_id (entry_name e)}) \<and>
   (match_episode_name name \<and> yields_id name \<longrightarrow>
      id_part_of name = take 2 (drop 8 name) \<and> list_all isdigit (id_part_of name)) \<and>
   (\<not> yields_id name \<longrightarrow>
      snd (episode_entry cfg (vs, ids) \<lparr>entry_name = name, entry_is_file = f\<rparr>) = ids)"
proof (intro conjI impI)
  show "list_episode_ids cfg (Some entries) vs =
     (vs @ map (\<lambda>e. \<lparr>artifact = episode_artifact (entry_name e), line = None,
                       requirement = USER_GUIDE_ASSET cfg,
                       details = InvalidEpisodeName (entry_name e)\<rparr>)
             (filter (\<lambda>e. scanned cfg e \<and> \<not> match_episode_name (entry_name e)) entries),
      (\<lambda>e. id_part_of (entry_name e)) `
        {e \<in> set entries. scanned cfg e \<and> yields_id (entry_name e)})"
    by (simp add: list_episode_ids_def episode_entries_result episode_violation_def)
next
  assume a: "match_episode_name name \<and> yields_id name"
  then have e: "endswith name ''.md''" and m: "match_episode_name name"
    by (simp_all add: yields_id_def)
  from m have "length (take 3 (drop 10 name)) = length ''.md''"
    by (simp only: match_episode_name_def)
  then have len: "13 \<le> length name" by simp
  from m have tail: "drop 13 name = [] \<or> drop 13 name = [CHR 0x0A]"
    by (simp add: match_episode_name_def end_of_string_def)
  from m have md: "take 3 (drop 10 name) = ''.md''"
    by (simp add: match_episode_name_def)
  have "length name = 13"
  proof (rule ccontr)
    assume "length name \<noteq> 13"
    with len tail have t: "drop 13 name = [CHR 0x0A]" and l: "length name = 14"
      by (auto dest: arg_cong [where f = length])
    from e l have "drop 11 name = ''.md''" by (simp add: endswith_def)
    then have "drop 2 (drop 11 name) = ''d''" by simp
    with t show False by simp
  qed
  then have "id_part_of name = take 2 (drop 8 name)"
    by (simp add: id_part_of_def drop_take)
  with m show "id_part_of name = take 2 (drop 8 name)" and "list_all isdigit (id_part_of name)"
    by (simp_all add: match_episode_name_def)
next
  assume "\<not> yields_id name"
  then show "snd (episode_entry cfg (vs, ids) \<lparr>entry_name = name, entry_is_file = f\<rparr>) = ids"
    by (simp add: episode_entry_result)
qed

lemma episodes_mixed_run:
  "list_episode_ids old_config (Some episodes_mixed) [] =
     ([\<lparr>artifact = ''user-guide/episodes/episode-1.md'', line = None,
        requirement = ''user-guide/CANON.md:60-63 (FSM Validation Details)'',
        details = InvalidEpisodeName ''episode-1.md''\<rparr>,
       \<lparr>artifact = ''user-guide/episodes/notes.txt'', line = None,
        requirement = ''user-guide/CANON.md:60-63 (FSM Validation Details)'',
        details = InvalidEpisodeName ''notes.txt''\<rparr>],
      {''1'', ''02''})"
  by code_simp

theorem misnamed_episode_files_witness:
  "list_episode_ids old_config (Some episodes_mixed) [] =
     ([\<lparr>artifact = ''user-guide/episodes/episode-1.md'', line = None,
        requirement = ''user-guide/CANON.md:60-63 (FSM Validation Details)'',
        details = InvalidEpisodeName ''episode-1.md''\<rparr>,
       \<lparr>artifact = ''user-guide/episodes/notes.txt'', line = None,
        requirement = ''user-guide/CANON.md:60-63 (FSM Validation Details)'',
        details = InvalidEpisodeName ''notes.txt''\<rparr>],
      {''1'', ''02''}) \<and>
   match_episode_name ''episode-02.md'' \<and> yields_id ''episode-02.md'' \<and>
   id_part_of ''episode-02.md'' = take 2 (drop 8 ''episode-02.md'') \<and>
   \<not> match_episode_name ''episode-1.md'' \<and> yields_id ''episode-1.md'' \<and>
   \<not> match_episode_name ''notes.txt'' \<and> \<not> yields_id ''notes.txt'' \<and>
   snd (episode_entry old_config ([], {}) \<lparr>entry_name = ''notes.txt'', entry_is_file = True\<rparr>) = {}"
proof -
  have rhs: "([] @ map (\<lambda>e. \<lparr>artifact = episode_artifact (entry_name e), line = None,
                       requirement = USER_GUIDE_ASSET old_config,
                       details = InvalidEpisodeName (entry_name e)\<rparr>)
             (filter (\<lambda>e. scanned old_config e \<and> \<not> match_episode_name (entry_name e))
                episodes_mixed),
      (\<lambda>e. id_part_of (entry_name e)) `
        {e \<in> set episodes_mixed. scanned old_config e \<and> yields_id (entry_name e)}) =
     ([\<lparr>artifact = ''user-guide/episodes/episode-1.md'', line = None,
        requirement = ''user-guide/CANON.md:60-63 (FSM Validation Details)'',
        details = InvalidEpisodeName ''episode-1.md''\<rparr>,
       \<lparr>artifact = ''user-guide/episodes/notes.txt'', line = None,
        requirement = ''user-guide/CANON.md:60-63 (FSM Validation Details)'',
        details = InvalidEpisodeName ''notes.txt''\<rparr>],
      {''1'', ''02''})"
    by code_simp
  have h1: "match_episode_name ''episode-02.md'' \<and> yields_id ''episode-02.md''" by code_simp
  have h2: "\<not> yields_id ''notes.txt''" by code_simp
  have h3: "\<not> match_episode_name ''episode-1.md'' \<and> yields_id ''episode-1.md'' \<and>
      \<not> match_episode_name ''notes.txt''" by code_simp
  note inst = misnamed_episode_files [of old_config episodes_mixed "[]"]
  from inst [of "''episode-02.md''"] h1
  have a: "id_part_of ''episode-02.md'' = take 2 (drop 8 ''episode-02.md'')" by blast
  from inst [of "''notes.txt''" "{}" True] h2
  have b: "snd (episode_entry old_config ([], {})
      \<lparr>entry_name = ''notes.txt'', entry_is_file = True\<rparr>) = {}" by blast
  from inst [of "''notes.txt''" "{}" True]
  have c: "list_episode_ids old_config (Some episodes_mixed) [] =
     ([\<lparr>artifact = ''user-guide/episodes/episode-1.md'', line = None,
        requirement = ''user-guide/CANON.md:60-63 (FSM Validation Details)'',
        details = InvalidEpisodeName ''episode-1.md''\<rparr>,
       \<lparr>artifact = ''user-guide/episodes/notes.txt'', line = None,
        requirement = ''user-guide/CANON.md:60-63 (FSM Validation Details)'',
        details = InvalidEpisodeName ''notes.txt''\<rparr>],
      {''1'', ''02''})"
    unfolding rhs [symmetric] by blast
  from a b c h1 h2 h3 show ?thesis by blast
qed

subsection \<open>C5: a malformed ID among sequential rows\<close>

text \<open>
  C5. The ledger is parsed by a fresh validator. If the numbers of the well-formed rows, in
  file order, are 1, 2, ..., N and exactly one row, \<open>bad\<close>, has an ID that fails the
  pattern, then the violations are exactly one format violation, on the line of that row
  and naming its ID, and no sequence violation. The malformed row leaves the expected-next
  counter as it was.
\<close>

theorem malformed_row_isolated:
  assumes "map row_number (filter well_formed_row lines) = [1..<Suc N]"
    and "filter malformed_row lines = [bad]"
  shows "(\<exists>n a. (n, bad) \<in> set (enumerate 1 lines) \<and> row_id bad = Some a \<and> \<not> match_asset_id a \<and>
            fst (parse_asset_ledger cfg (Some lines) []) =
              [\<lparr>artifact = ledger_artifact, line = Some n, requirement = USER_GUIDE_ASSET cfg,
                details = InvalidAssetFormat a\<rparr>]) \<and>
         expected_next_id (ledger_line cfg st (i, bad)) = expected_next_id st"
proof
  from assms(1) have w: "wf_numbers (enumerate 1 lines) = [1..<1 + N]"
    by (simp add: wf_numbers_enumerate)
  from assms(2) have b: "map snd (filter (\<lambda>nl. malformed_row (snd nl)) (enumerate 1 lines)) = [bad]"
    by (simp add: malformed_enumerate)
  from emitted_one_malformed [OF w b, of cfg]
  show "\<exists>n a. (n, bad) \<in> set (enumerate 1 lines) \<and> row_id bad = Some a \<and> \<not> match_asset_id a \<and>
            fst (parse_asset_ledger cfg (Some lines) []) =
              [\<lparr>artifact = ledger_artifact, line = Some n, requirement = USER_GUIDE_ASSET cfg,
                details = InvalidAssetFormat a\<rparr>]"
    by (simp add: parse_asset_ledger_violations format_violation_def)
next
  have "bad \<in> set (filter malformed_row lines)" using assms(2) by simp
  then have "malformed_row bad" by simp
  then obtain a where "row_id bad = Some a" and "\<not> match_asset_id a"
    by (auto simp: malformed_row_def split: option.splits)
  then show "expected_next_id (ledger_line cfg st (i, bad)) = expected_next_id st"
    by (simp add: ledger_line_malformed)
qed

lemma ledger_bad_width_rows:
  "map row_number (filter well_formed_row ledger_bad_width) = [1, 2] \<and>
   filter malformed_row ledger_bad_width = [''| asset-1 | Narrow | concept | 01 |'' @ [CHR 0x0A]]"
  by code_simp

lemma ledger_bad_width_run:
  "fst (parse_asset_ledger old_config (Some ledger_bad_width) []) =
     [\<lparr>artifact = ''user-guide/assets/LEDGER.md'', line = Some 4,
       requirement = ''user-guide/CANON.md:60-63 (FSM Validation Details)'',
       details = InvalidAssetFormat ''asset-1''\<rparr>]"
  by code_simp

theorem malformed_row_isolated_witness:
  "map row_number (filter well_formed_row ledger_bad_width) = [1..<Suc 2] \<and>
   filter malformed_row ledger_bad_width = [''| asset-1 | Narrow | concept | 01 |'' @ [CHR 0x0A]] \<and>
   (\<exists>n a. (n, ''| asset-1 | Narrow | concept | 01 |'' @ [CHR 0x0A]) \<in> set (enumerate 1 ledger_bad_width) \<and>
      row_id (''| asset-1 | Narrow | concept | 01 |'' @ [CHR 0x0A]) = Some a \<and> \<not> match_asset_id a \<and>
      fst (parse_asset_ledger old_config (Some ledger_bad_width) []) =
        [\<lparr>artifact = ledger_artifact, line = Some n, requirement = USER_GUIDE_ASSET old_config,
          details = InvalidAssetFormat a\<rparr>])"
proof -
  have h1: "map row_number (filter well_formed_row ledger_bad_width) = [1..<Suc 2]"
    by (simp add: ledger_bad_width_rows upt_rec)
  have h2: "filter malformed_row ledger_bad_width =
      [''| asset-1 | Narrow | concept | 01 |'' @ [CHR 0x0A]]"
    by (simp add: ledger_bad_width_rows)
  from malformed_row_isolated [OF h1 h2, of old_config] h1 h2
  show ?thesis by blast
qed

subsection \<open>C6: an unknown reference is reported once, at its first line\<close>

text \<open>
  C6. For every prose document and every set of known IDs, the reference scan appends
  violations \<open>new\<close> such that: no two of them are about the same ID; the IDs they are
  about are exactly the asset-shaped tokens of the document that are not known (so a
  registered ID produces none, and a later occurrence of an unknown ID produces no second
  one); and each carries the number of the line where its ID occurs first.
  \<open>prose_tokens\<close> lists the token occurrences of the document in reading order, each
  with its line number.
\<close>

theorem unknown_reference_reported_once:
  "\<exists>new.
     validate_prose_references cfg (Some lines) ids vs = vs @ new \<and>
     distinct (map details new) \<and>
     set (map details new) =
       UnregisteredReference ` (snd ` set (prose_tokens (enumerate 1 lines)) - ids) \<and>
     (\<forall>v \<in> set new. \<exists>t.
        v = \<lparr>artifact = prose_artifact,
              line = first_line t (prose_tokens (enumerate 1 lines)),
              requirement = USER_GUIDE_ASSET cfg,
              details = UnregisteredReference t\<rparr>)"
proof -
  define toks where "toks = prose_tokens (enumerate 1 lines)"
  define new where "new = map (reference_violation cfg) (fresh_refs ids toks)"
  have run: "validate_prose_references cfg (Some lines) ids vs = vs @ new"
    by (simp add: validate_prose_references_def prose_lines_result new_def toks_def)
  have det: "map details new = map UnregisteredReference (map snd (fresh_refs ids toks))"
    by (simp add: new_def reference_violation_def comp_def)
  have "distinct (map UnregisteredReference (map snd (fresh_refs ids toks)))"
  proof (rule iffD2 [OF distinct_map], rule conjI)
    show "distinct (map snd (fresh_refs ids toks))" by (rule fresh_refs_distinct)
    show "inj_on UnregisteredReference (set (map snd (fresh_refs ids toks)))"
      by (rule inj_onI) simp
  qed
  then have d: "distinct (map details new)"
    unfolding det .
  have s: "set (map details new) = UnregisteredReference ` (snd ` set toks - ids)"
    unfolding det by (simp only: set_map fresh_refs_tokens)
  have f: "\<forall>v \<in> set new. \<exists>t.
        v = \<lparr>artifact = prose_artifact, line = first_line t toks,
              requirement = USER_GUIDE_ASSET cfg, details = UnregisteredReference t\<rparr>"
  proof
    fix v assume "v \<in> set new"
    then obtain nt where nt: "nt \<in> set (fresh_refs ids toks)" and v: "v = reference_violation cfg nt"
      by (auto simp: new_def)
    from fresh_refs_first [OF nt] v
    have "v = \<lparr>artifact = prose_artifact, line = first_line (snd nt) toks,
              requirement = USER_GUIDE_ASSET cfg, details = UnregisteredReference (snd nt)\<rparr>"
      by (simp add: reference_violation_def)
    then show "\<exists>t. v = \<lparr>artifact = prose_artifact, line = first_line t toks,
              requirement = USER_GUIDE_ASSET cfg, details = UnregisteredReference t\<rparr>" ..
  qed
  from run d s f show ?thesis unfolding toks_def by blast
qed

lemma prose_three_mentions_run:
  "validate_prose_references old_config (Some prose_three_mentions) {''asset-0001''} [] =
     [\<lparr>artifact = ''user-guide/prose/draft.md'', line = Some 2,
       requirement = ''user-guide/CANON.md:60-63 (FSM Validation Details)'',
       details = UnregisteredReference ''asset-9999''\<rparr>]"
  by code_simp

lemma prose_three_mentions_tokens:
  "prose_tokens (enumerate 1 prose_three_mentions) =
     [(2, ''asset-0001''), (2, ''asset-9999''), (3, ''asset-9999''), (3, ''asset-9999''),
      (4, ''asset-9999''), (4, ''asset-0001'')]"
  by code_simp

theorem unknown_reference_reported_once_witness:
  "\<exists>new.
     validate_prose_references old_config (Some prose_three_mentions) {''asset-0001''} [] = new \<and>
     distinct (map details new) \<and>
     set (map details new) = {UnregisteredReference ''asset-9999''} \<and>
     list_all (\<lambda>v. \<exists>t.
        v = \<lparr>artifact = prose_artifact,
              line = first_line t (prose_tokens (enumerate 1 prose_three_mentions)),
              requirement = USER_GUIDE_ASSET old_config,
              details = UnregisteredReference t\<rparr>) new"
proof -
  have toks: "snd ` set (prose_tokens (enumerate 1 prose_three_mentions)) - {''asset-0001''} =
      {''asset-9999''}"
    unfolding prose_three_mentions_tokens by auto
  from unknown_reference_reported_once
    [of old_config prose_three_mentions "{''asset-0001''}" "[]"]
  show ?thesis
    unfolding toks by (simp add: list_all_iff)
qed

subsection \<open>C7: source episodes of an asset\<close>


lemma sources_01_99_run:
  "validate_asset_sources old_config sources_01_99 {''01''} [] =
     [\<lparr>artifact = ''user-guide/assets/LEDGER.md'', line = Some 5,
       requirement = ''user-guide/CANON.md:60-63 (FSM Validation Details)'',
       details = MissingEpisode ''asset-0001'' ''99''\<rparr>,
      \<lparr>artifact = ''user-guide/assets/LEDGER.md'', line = Some 6,
       requirement = ''user-guide/CANON.md:60-63 (FSM Validation Details)'',
       details = NoSourceEpisode ''asset-0002''\<rparr>]"
  by code_simp


subsection \<open>C8: missing artifacts\<close>

text \<open>
  C8. A missing ledger gives exactly one violation and the empty set and dictionary; a
  missing prose document gives exactly one violation and no scan; a missing outline gives
  exactly one violation and no comparison of sections; a missing episode directory gives
  the empty set of episode IDs and no violation. In each case the run goes on: the result
  of \<open>validate\<close> is the violation of the missing artifact, at its place, among the
  violations of the other stages, which are computed with that empty data. (With the prose
  missing and the outline present the structure stage adds nothing.)
\<close>

theorem missing_artifacts:
  "parse_asset_ledger cfg None vs =
     (vs @ [missing_violation ledger_artifact (USER_GUIDE_ASSET cfg) MissingLedger], {}, []) \<and>
   validate_prose_references cfg None ids vs =
     vs @ [missing_violation prose_artifact (USER_GUIDE_ASSET cfg) MissingProse] \<and>
   validate_structure_order cfg structure_sections prose_sections False prose_exists vs =
     vs @ [missing_violation structure_artifact (USER_GUIDE_STRUCTURE cfg) MissingOutline] \<and>
   list_episode_ids cfg None vs = (vs, {}) \<and>
   validate cfg (Some (ug\<lparr>ledger_file := None\<rparr>)) =
     missing_violation ledger_artifact (USER_GUIDE_ASSET cfg) MissingLedger #
     fst (list_episode_ids cfg (episodes_dir ug) []) @
     validate_prose_references cfg (prose_file ug) {} [] @
     validate_structure_order cfg (parse_structure_sections (structure_file ug))
       (parse_prose_sections (prose_file ug)) (structure_file ug \<noteq> None) (prose_file ug \<noteq> None) [] \<and>
   validate cfg (Some (ug\<lparr>prose_file := None\<rparr>)) =
     fst (parse_asset_ledger cfg (ledger_file ug) []) @
     fst (list_episode_ids cfg (episodes_dir ug) []) @
     missing_violation prose_artifact (USER_GUIDE_ASSET cfg) MissingProse #
     validate_asset_sources cfg (snd (snd (parse_asset_ledger cfg (ledger_file ug) [])))
       (snd (list_episode_ids cfg (episodes_dir ug) [])) [] @
     (if structure_file ug = None
      then [missing_violation structure_artifact (USER_GUIDE_STRUCTURE cfg) MissingOutline]
      else []) \<and>
   validate cfg (Some (ug\<lparr>structure_file := None\<rparr>)) =
     fst (parse_asset_ledger cfg (ledger_file ug) []) @
     fst (list_episode_ids cfg (episodes_dir ug) []) @
     validate_prose_references cfg (prose_file ug)
       (fst (snd (parse_asset_ledger cfg (ledger_file ug) []))) [] @
     validate_asset_sources cfg (snd (snd (parse_asset_ledger cfg (ledger_file ug) [])))
       (snd (list_episode_ids cfg (episodes_dir ug) [])) [] @
     [missing_violation structure_artifact (USER_GUIDE_STRUCTURE cfg) MissingOutline] \<and>
   validate cfg (Some (ug\<lparr>episodes_dir := None\<rparr>)) =
     fst (parse_asset_ledger cfg (ledger_file ug) []) @
     validate_prose_references cfg (prose_file ug)
       (fst (snd (parse_asset_ledger cfg (ledger_file ug) []))) [] @
     validate_asset_sources cfg (snd (snd (parse_asset_ledger cfg (ledger_file ug) []))) {} [] @
     validate_structure_order cfg (parse_structure_sections (structure_file ug))
       (parse_prose_sections (prose_file ug)) (structure_file ug \<noteq> None) (prose_file ug \<noteq> None) []"
proof (intro conjI)
  show "parse_asset_ledger cfg None vs =
     (vs @ [missing_violation ledger_artifact (USER_GUIDE_ASSET cfg) MissingLedger], {}, [])"
    by (simp add: parse_asset_ledger_def add_violation_def missing_violation_def)
  show "validate_prose_references cfg None ids vs =
     vs @ [missing_violation prose_artifact (USER_GUIDE_ASSET cfg) MissingProse]"
    by (simp add: validate_prose_references_def add_violation_def missing_violation_def)
  show "validate_structure_order cfg structure_sections prose_sections False prose_exists vs =
     vs @ [missing_violation structure_artifact (USER_GUIDE_STRUCTURE cfg) MissingOutline]"
    by (simp add: validate_structure_order_def add_violation_def missing_violation_def)
  show "list_episode_ids cfg None vs = (vs, {})"
    by (simp add: list_episode_ids_def)
  show "validate cfg (Some (ug\<lparr>ledger_file := None\<rparr>)) =
     missing_violation ledger_artifact (USER_GUIDE_ASSET cfg) MissingLedger #
     fst (list_episode_ids cfg (episodes_dir ug) []) @
     validate_prose_references cfg (prose_file ug) {} [] @
     validate_structure_order cfg (parse_structure_sections (structure_file ug))
       (parse_prose_sections (prose_file ug)) (structure_file ug \<noteq> None) (prose_file ug \<noteq> None) []"
    by (simp add: validate_stages parse_asset_ledger_def add_violation_def missing_violation_def)
  show "validate cfg (Some (ug\<lparr>prose_file := None\<rparr>)) =
     fst (parse_asset_ledger cfg (ledger_file ug) []) @
     fst (list_episode_ids cfg (episodes_dir ug) []) @
     missing_violation prose_artifact (USER_GUIDE_ASSET cfg) MissingProse #
     validate_asset_sources cfg (snd (snd (parse_asset_ledger cfg (ledger_file ug) [])))
       (snd (list_episode_ids cfg (episodes_dir ug) [])) [] @
     (if structure_file ug = None
      then [missing_violation structure_artifact (USER_GUIDE_STRUCTURE cfg) MissingOutline]
      else [])"
    by (simp add: validate_stages validate_prose_references_def validate_structure_order_def
        add_violation_def missing_violation_def)
  show "validate cfg (Some (ug\<lparr>structure_file := None\<rparr>)) =
     fst (parse_asset_ledger cfg (ledger_file ug) []) @
     fst (list_episode_ids cfg (episodes_dir ug) []) @
     validate_prose_references cfg (prose_file ug)
       (fst (snd (parse_asset_ledger cfg (ledger_file ug) []))) [] @
     validate_asset_sources cfg (snd (snd (parse_asset_ledger cfg (ledger_file ug) [])))
       (snd (list_episode_ids cfg (episodes_dir ug) [])) [] @
     [missing_violation structure_artifact (USER_GUIDE_STRUCTURE cfg) MissingOutline]"
    by (simp add: validate_stages validate_structure_order_def add_violation_def
        missing_violation_def)
  show "validate cfg (Some (ug\<lparr>episodes_dir := None\<rparr>)) =
     fst (parse_asset_ledger cfg (ledger_file ug) []) @
     validate_prose_references cfg (prose_file ug)
       (fst (snd (parse_asset_ledger cfg (ledger_file ug) []))) [] @
     validate_asset_sources cfg (snd (snd (parse_asset_ledger cfg (ledger_file ug) []))) {} [] @
     validate_structure_order cfg (parse_structure_sections (structure_file ug))
       (parse_prose_sections (prose_file ug)) (structure_file ug \<noteq> None) (prose_file ug \<noteq> None) []"
    by (simp add: validate_stages list_episode_ids_def)
qed

lemma guide_only_episodes_run:
  "validate old_config (Some guide_only_episodes) =
     [\<lparr>artifact = ''user-guide/assets/LEDGER.md'', line = None,
       requirement = ''user-guide/CANON.md:60-63 (FSM Validation Details)'',
       details = MissingLedger\<rparr>,
      \<lparr>artifact = ''user-guide/episodes/notes.txt'', line = None,
       requirement = ''user-guide/CANON.md:60-63 (FSM Validation Details)'',
       details = InvalidEpisodeName ''notes.txt''\<rparr>,
      \<lparr>artifact = ''user-guide/prose/draft.md'', line = None,
       requirement = ''user-guide/CANON.md:60-63 (FSM Validation Details)'',
       details = MissingProse\<rparr>,
      \<lparr>artifact = ''user-guide/structure/outline.md'', line = None,
       requirement = ''user-guide/CANON.md:64-66 (FSM Validation Details)'',
       details = MissingOutline\<rparr>]"
  by code_simp

theorem missing_artifacts_witness:
  "validate old_config (Some (empty_guide\<lparr>ledger_file := None\<rparr>)) =
     [missing_violation ledger_artifact (USER_GUIDE_ASSET old_config) MissingLedger,
      missing_violation prose_artifact (USER_GUIDE_ASSET old_config) MissingProse,
      missing_violation structure_artifact (USER_GUIDE_STRUCTURE old_config) MissingOutline]"
proof -
  have "validate old_config (Some (empty_guide\<lparr>ledger_file := None\<rparr>)) =
     missing_violation ledger_artifact (USER_GUIDE_ASSET old_config) MissingLedger #
     fst (list_episode_ids old_config (episodes_dir empty_guide) []) @
     validate_prose_references old_config (prose_file empty_guide) {} [] @
     validate_structure_order old_config (parse_structure_sections (structure_file empty_guide))
       (parse_prose_sections (prose_file empty_guide)) (structure_file empty_guide \<noteq> None)
       (prose_file empty_guide \<noteq> None) []"
    using missing_artifacts [of old_config "[]" "{}" "[]" "[]" True empty_guide] by blast
  also have "\<dots> =
     [missing_violation ledger_artifact (USER_GUIDE_ASSET old_config) MissingLedger,
      missing_violation prose_artifact (USER_GUIDE_ASSET old_config) MissingProse,
      missing_violation structure_artifact (USER_GUIDE_STRUCTURE old_config) MissingOutline]"
    by (simp add: empty_guide_def list_episode_ids_def validate_prose_references_def
        validate_structure_order_def add_violation_def missing_violation_def)
  finally show ?thesis .
qed

subsection \<open>C9: the order of the directory listing\<close>

text \<open>
  C9. The episode directory is read with \<^verbatim>\<open>iterdir\<close>, whose order the validator does not
  sort, while the other validators of the file sort the directories they walk. The order of
  the listing therefore shows in the result: for two files of the episode directory with
  different, badly formed names, the same directory listed in the two possible orders gives
  two different violation lists. So the list of violations is a function of the tree only
  together with the order in which the system lists the directory, and that order is not
  the lexicographic one.
\<close>

theorem listing_order_observable:
  assumes "scanned cfg e1" and "scanned cfg e2"
    and "\<not> match_episode_name (entry_name e1)" and "\<not> match_episode_name (entry_name e2)"
    and "entry_name e1 \<noteq> entry_name e2"
  shows "set [e1, e2] = set [e2, e1] \<and>
         validate cfg (Some (ug\<lparr>episodes_dir := Some [e1, e2]\<rparr>)) \<noteq>
         validate cfg (Some (ug\<lparr>episodes_dir := Some [e2, e1]\<rparr>))"
proof
  show "set [e1, e2] = set [e2, e1]" by auto
next
  let ?A = "fst (parse_asset_ledger cfg (ledger_file ug) [])"
  have e12: "fst (list_episode_ids cfg (Some [e1, e2]) []) =
      [episode_violation cfg (entry_name e1), episode_violation cfg (entry_name e2)]"
    using assms by (simp add: list_episode_ids_def episode_entries_result)
  have e21: "fst (list_episode_ids cfg (Some [e2, e1]) []) =
      [episode_violation cfg (entry_name e2), episode_violation cfg (entry_name e1)]"
    using assms by (simp add: list_episode_ids_def episode_entries_result)
  have ne: "episode_violation cfg (entry_name e1) \<noteq> episode_violation cfg (entry_name e2)"
    using assms(5) by (simp add: episode_violation_def)
  have part: "\<exists>rest. validate cfg (Some (ug\<lparr>episodes_dir := d\<rparr>)) =
      ?A @ fst (list_episode_ids cfg d []) @ rest" for d
    by (simp add: validate_stages)
  obtain r12 where v12: "validate cfg (Some (ug\<lparr>episodes_dir := Some [e1, e2]\<rparr>)) =
      ?A @ [episode_violation cfg (entry_name e1), episode_violation cfg (entry_name e2)] @ r12"
    using part [of "Some [e1, e2]"] unfolding e12 by blast
  obtain r21 where v21: "validate cfg (Some (ug\<lparr>episodes_dir := Some [e2, e1]\<rparr>)) =
      ?A @ [episode_violation cfg (entry_name e2), episode_violation cfg (entry_name e1)] @ r21"
    using part [of "Some [e2, e1]"] unfolding e21 by blast
  show "validate cfg (Some (ug\<lparr>episodes_dir := Some [e1, e2]\<rparr>)) \<noteq>
        validate cfg (Some (ug\<lparr>episodes_dir := Some [e2, e1]\<rparr>))"
    unfolding v12 v21 using ne by simp
qed

lemma guide_two_notes_runs:
  "map artifact (validate old_config (Some (guide_two_notes [entry_zeta, entry_alpha]))) =
     [''user-guide/episodes/zeta.md'', ''user-guide/episodes/alpha.md''] \<and>
   map artifact (validate old_config (Some (guide_two_notes [entry_alpha, entry_zeta]))) =
     [''user-guide/episodes/alpha.md'', ''user-guide/episodes/zeta.md'']"
  by code_simp

theorem listing_order_observable_witness:
  "scanned old_config entry_zeta \<and> scanned old_config entry_alpha \<and>
   entry_name entry_zeta \<noteq> entry_name entry_alpha \<and>
   validate old_config (Some (guide_two_notes [entry_zeta, entry_alpha])) \<noteq>
   validate old_config (Some (guide_two_notes [entry_alpha, entry_zeta]))"
proof -
  have s: "scanned old_config entry_zeta" "scanned old_config entry_alpha"
    by (simp_all add: scanned_def old_config_def entry_zeta_def entry_alpha_def)
  have m: "\<not> match_episode_name (entry_name entry_zeta)"
    "\<not> match_episode_name (entry_name entry_alpha)"
    by (simp_all add: match_episode_name_def entry_zeta_def entry_alpha_def)
  have n: "entry_name entry_zeta \<noteq> entry_name entry_alpha"
    by (simp add: entry_zeta_def entry_alpha_def)
  have g: "guide_two_notes entries = (guide_two_notes [])\<lparr>episodes_dir := Some entries\<rparr>" for entries
    by (simp add: guide_two_notes_def)
  from listing_order_observable [OF s m n, of "guide_two_notes []"] s n
  show ?thesis by (simp add: g [symmetric])
qed

subsection \<open>C10: the same ID on several rows\<close>

text \<open>
  C10, as the code has it. The parser has no check for a repeated ID; a repeated row is
  treated like any other well-formed row. The run below is on a ledger whose rows carry the
  numbers 1, 2, 1, 2. The only violation is the sequence violation on line 3. Line 4
  repeats \<^verbatim>\<open>asset-0002\<close>, but its number is the expected one after the 1 of line 3, so the
  repeated row itself is not reported.
\<close>

theorem repeated_id_counterexample:
  "parse_asset_ledger old_config (Some ledger_1_2_1_2) [] =
     ([\<lparr>artifact = ''user-guide/assets/LEDGER.md'', line = Some 3,
        requirement = ''user-guide/CANON.md:60-63 (FSM Validation Details)'',
        details = BreaksSequentialOrder ''asset-0001'' 3\<rparr>],
      {''asset-0001'', ''asset-0002''},
      [(''asset-0001'', \<lparr>meta_line = 3, meta_sources = [''03'']\<rparr>),
       (''asset-0002'', \<lparr>meta_line = 4, meta_sources = []\<rparr>)])"
  by code_simp

text \<open>
  C10 amended. Let a well-formed ID stand on two rows of the ledger, the second of them the
  last row with that ID. Then the returned set has the ID; the returned dictionary has each
  key once, and under this ID the line number and the sources of that last row; the parser
  emits only format and sequence violations, and at least one sequence violation lies on a
  line after the first of the two rows and not after the second; the repeated row itself is
  reported exactly when its number is not the expected one at that point; and the source
  check reports about this ID once, from the data of the last row.
\<close>

theorem repeated_id_last_row:
  assumes "row_id l1 = Some a" and "row_id l2 = Some a" and "match_asset_id a"
    and "\<forall>r \<in> set post. row_id r \<noteq> Some a"
  shows "a \<in> fst (snd (parse_asset_ledger cfg (Some (pre @ l1 # mid @ l2 # post)) [])) \<and>
         distinct (map fst (snd (snd (parse_asset_ledger cfg (Some (pre @ l1 # mid @ l2 # post)) [])))) \<and>
         map_of (snd (snd (parse_asset_ledger cfg (Some (pre @ l1 # mid @ l2 # post)) []))) a =
           Some \<lparr>meta_line = length pre + length mid + 2, meta_sources = row_sources l2\<rparr> \<and>
         (\<exists>v \<in> set (fst (parse_asset_ledger cfg (Some (pre @ l1 # mid @ l2 # post)) [])).
            is_sequence_violation v \<and>
            (\<exists>n. line v = Some n \<and> Suc (length pre) < n \<and> n \<le> length pre + length mid + 2)) \<and>
         (\<forall>v \<in> set (fst (parse_asset_ledger cfg (Some (pre @ l1 # mid @ l2 # post)) [])).
            is_sequence_violation v \<or> is_format_violation v) \<and>
         violations (ledger_line cfg st (i, l2)) =
           violations st @
           (if row_number l2 = expected_next_id st then []
            else [\<lparr>artifact = ledger_artifact, line = Some i, requirement = USER_GUIDE_ASSET cfg,
                   details = BreaksSequentialOrder a (expected_next_id st)\<rparr>]) \<and>
         filter (concerns_asset a)
           (validate_asset_sources cfg
              (snd (snd (parse_asset_ledger cfg (Some (pre @ l1 # mid @ l2 # post)) [])))
              episode_ids []) =
           (if row_sources l2 = []
            then [\<lparr>artifact = ledger_artifact, line = Some (length pre + length mid + 2),
                   requirement = USER_GUIDE_ASSET cfg, details = NoSourceEpisode a\<rparr>]
            else map (\<lambda>episode_id.
                        \<lparr>artifact = ledger_artifact, line = Some (length pre + length mid + 2),
                         requirement = USER_GUIDE_ASSET cfg,
                         details = MissingEpisode a episode_id\<rparr>)
                   (filter (\<lambda>episode_id. episode_id \<notin> episode_ids) (row_sources l2)))"
proof (intro conjI)
  let ?lines = "pre @ l1 # mid @ l2 # post"
  let ?srcs = "snd (snd (parse_asset_ledger cfg (Some ?lines) []))"
  let ?meta = "\<lparr>meta_line = length pre + length mid + 2, meta_sources = row_sources l2\<rparr>"
  have "a \<in> row_ids (enumerate 1 ?lines)"
    unfolding row_ids_enumerate using assms(1) by auto
  then show "a \<in> fst (snd (parse_asset_ledger cfg (Some ?lines) []))"
    by (simp only: parse_asset_ledger_ids)
  show d: "distinct (map fst ?srcs)"
    by (rule parse_asset_ledger_distinct)
  have "map_of (snd (snd (parse_asset_ledger cfg (Some ((pre @ l1 # mid) @ l2 # post)) []))) a =
      Some (row_meta (Suc (length (pre @ l1 # mid))) l2)"
    using assms(2,4) by (rule parse_asset_ledger_lookup_last)
  then show m: "map_of ?srcs a = Some ?meta"
    by (simp add: row_meta_def)
  show "\<exists>v \<in> set (fst (parse_asset_ledger cfg (Some ?lines) [])).
            is_sequence_violation v \<and>
            (\<exists>n. line v = Some n \<and> Suc (length pre) < n \<and> n \<le> length pre + length mid + 2)"
    using assms(1,2,3) by (rule repeated_row_sequence_violation)
  show "\<forall>v \<in> set (fst (parse_asset_ledger cfg (Some ?lines) [])).
            is_sequence_violation v \<or> is_format_violation v"
    unfolding parse_asset_ledger_violations using emitted_kinds by auto
  show "violations (ledger_line cfg st (i, l2)) =
           violations st @
           (if row_number l2 = expected_next_id st then []
            else [\<lparr>artifact = ledger_artifact, line = Some i, requirement = USER_GUIDE_ASSET cfg,
                   details = BreaksSequentialOrder a (expected_next_id st)\<rparr>])"
    using assms(2,3) by (simp add: ledger_line_well_formed sequence_violation_def)
  from m have "(a, ?meta) \<in> set ?srcs" by (rule map_of_SomeD)
  from source_checks_of_asset [OF d this, of cfg episode_ids]
  show "filter (concerns_asset a) (validate_asset_sources cfg ?srcs episode_ids []) =
           (if row_sources l2 = []
            then [\<lparr>artifact = ledger_artifact, line = Some (length pre + length mid + 2),
                   requirement = USER_GUIDE_ASSET cfg, details = NoSourceEpisode a\<rparr>]
            else map (\<lambda>episode_id.
                        \<lparr>artifact = ledger_artifact, line = Some (length pre + length mid + 2),
                         requirement = USER_GUIDE_ASSET cfg,
                         details = MissingEpisode a episode_id\<rparr>)
                   (filter (\<lambda>episode_id. episode_id \<notin> episode_ids) (row_sources l2)))"
    by (simp add: validate_asset_sources_result source_check_def)
qed

lemma ledger_1_2_1_2_rows:
  "ledger_1_2_1_2 =
     [] @ (''| asset-0001 | First | concept | 01 |'' @ [CHR 0x0A]) #
     [''| asset-0002 | Second | person | 02 |'' @ [CHR 0x0A]] @
     (''| asset-0001 | First again | concept | 03 |'' @ [CHR 0x0A]) #
     [''| asset-0002 | Second again | person | |'' @ [CHR 0x0A]] \<and>
   row_id (''| asset-0001 | First | concept | 01 |'' @ [CHR 0x0A]) = Some ''asset-0001'' \<and>
   row_id (''| asset-0001 | First again | concept | 03 |'' @ [CHR 0x0A]) = Some ''asset-0001'' \<and>
   row_id (''| asset-0002 | Second again | person | |'' @ [CHR 0x0A]) = Some ''asset-0002'' \<and>
   row_sources (''| asset-0001 | First again | concept | 03 |'' @ [CHR 0x0A]) = [''03''] \<and>
   match_asset_id ''asset-0001''"
  by code_simp

theorem repeated_id_last_row_witness:
  "''asset-0001'' \<in> fst (snd (parse_asset_ledger old_config (Some ledger_1_2_1_2) [])) \<and>
   distinct (map fst (snd (snd (parse_asset_ledger old_config (Some ledger_1_2_1_2) [])))) \<and>
   map_of (snd (snd (parse_asset_ledger old_config (Some ledger_1_2_1_2) []))) ''asset-0001'' =
     Some \<lparr>meta_line = 3, meta_sources = [''03'']\<rparr> \<and>
   (\<exists>v n. v \<in> set (fst (parse_asset_ledger old_config (Some ledger_1_2_1_2) [])) \<and>
      is_sequence_violation v \<and> line v = Some n \<and> 1 < n \<and> n \<le> 3) \<and>
   filter (concerns_asset ''asset-0001'')
     (validate_asset_sources old_config
        (snd (snd (parse_asset_ledger old_config (Some ledger_1_2_1_2) []))) {''01''} []) =
     [\<lparr>artifact = ledger_artifact, line = Some 3, requirement = USER_GUIDE_ASSET old_config,
       details = MissingEpisode ''asset-0001'' ''03''\<rparr>]"
proof -
  note rows = ledger_1_2_1_2_rows
  have h1: "row_id (''| asset-0001 | First | concept | 01 |'' @ [CHR 0x0A]) = Some ''asset-0001''"
    and h2: "row_id (''| asset-0001 | First again | concept | 03 |'' @ [CHR 0x0A]) = Some ''asset-0001''"
    and h3: "match_asset_id ''asset-0001''"
    using rows by blast+
  have h4: "\<forall>r \<in> set [''| asset-0002 | Second again | person | |'' @ [CHR 0x0A]].
      row_id r \<noteq> Some ''asset-0001''"
    using rows by simp
  have src: "row_sources (''| asset-0001 | First again | concept | 03 |'' @ [CHR 0x0A]) = [''03'']"
    using rows by blast
  have eq: "[] @ (''| asset-0001 | First | concept | 01 |'' @ [CHR 0x0A]) #
     [''| asset-0002 | Second | person | 02 |'' @ [CHR 0x0A]] @
     (''| asset-0001 | First again | concept | 03 |'' @ [CHR 0x0A]) #
     [''| asset-0002 | Second again | person | |'' @ [CHR 0x0A]] = ledger_1_2_1_2"
    using rows by simp
  from repeated_id_last_row [OF h1 h2 h3 h4, where cfg = old_config and pre = "[]"
      and mid = "[''| asset-0002 | Second | person | 02 |'' @ [CHR 0x0A]]"
      and episode_ids = "{''01''}" and i = 3
      and st = "\<lparr>expected_next_id = 3, asset_ids = {}, asset_sources = [], violations = []\<rparr>"]
  show ?thesis
    unfolding eq src by (auto simp: numeral_2_eq_2 numeral_3_eq_3)
qed

end
